theory Spec2Isabelle
  imports Complex_Main "HOL-Library.Multiset"
begin

section \<open>Common conventions\<close>

text \<open>
  Instants (Go \<^verbatim>\<open>time.Time\<close>, SQL \<^verbatim>\<open>TIMESTAMPTZ\<close>) are integers counting
  milliseconds since the Unix epoch. Go's zero \<^verbatim>\<open>time.Time{}\<close> is year 1, January 1,
  which lies 62135596800 seconds before the epoch.
\<close>

type_synonym time = int

definition zero_time :: time where
  "zero_time = - 62135596800000"

text \<open>
  Errors of the storage layer. \<open>ErrNoRows\<close> is \<^verbatim>\<open>pgx.ErrNoRows\<close>;
  \<open>ErrUniqueViolation\<close> is the statement failure raised by a unique constraint or a
  unique index of the schema; \<open>ErrInvalidPayload\<close> is the repository's own check.
  A failed statement changes nothing, and a transaction that does not commit is rolled
  back, so every error is returned together with the unchanged table.
\<close>

datatype db_error = ErrNoRows | ErrInvalidPayload | ErrUniqueViolation

text \<open>
  Values of Go's \<^verbatim>\<open>float64\<close>. A finite value is a real number; the three special
  values are kept apart so that every comparison with NaN, and every \<^verbatim>\<open>math.IsNaN\<close>
  or \<^verbatim>\<open>math.IsInf\<close> test of the source, is a branch of the model. Arithmetic on
  special values follows IEEE 754. Arithmetic on finite values is exact: rounding,
  overflow to an infinity and the sign of zero are outside this model (a division of a
  finite non-zero value by zero takes the sign of the dividend).
\<close>

datatype f64 = Fin real | PInf | NInf | NaN

fun isNaN :: "f64 \<Rightarrow> bool" where
  "isNaN NaN = True"
| "isNaN _ = False"

fun isInf :: "f64 \<Rightarrow> bool" where
  "isInf PInf = True"
| "isInf NInf = True"
| "isInf _ = False"

fun f_neg :: "f64 \<Rightarrow> f64" where
  "f_neg (Fin a) = Fin (- a)"
| "f_neg PInf = NInf"
| "f_neg NInf = PInf"
| "f_neg NaN = NaN"

fun f_add :: "f64 \<Rightarrow> f64 \<Rightarrow> f64" where
  "f_add (Fin a) (Fin b) = Fin (a + b)"
| "f_add NaN _ = NaN"
| "f_add _ NaN = NaN"
| "f_add PInf NInf = NaN"
| "f_add NInf PInf = NaN"
| "f_add PInf _ = PInf"
| "f_add _ PInf = PInf"
| "f_add NInf _ = NInf"
| "f_add _ NInf = NInf"

definition f_sub :: "f64 \<Rightarrow> f64 \<Rightarrow> f64" where
  "f_sub x y = f_add x (f_neg y)"

text \<open>The sign of a non-NaN value: \<open>1\<close>, \<open>0\<close> or \<open>-1\<close>.\<close>

fun f_sgn :: "f64 \<Rightarrow> real" where
  "f_sgn (Fin a) = sgn a"
| "f_sgn PInf = 1"
| "f_sgn NInf = - 1"
| "f_sgn NaN = 0"

definition signed_inf :: "real \<Rightarrow> f64" where
  "signed_inf s = (if s < 0 then NInf else PInf)"

fun f_mul :: "f64 \<Rightarrow> f64 \<Rightarrow> f64" where
  "f_mul (Fin a) (Fin b) = Fin (a * b)"
| "f_mul NaN _ = NaN"
| "f_mul _ NaN = NaN"
| "f_mul x y = (if f_sgn x * f_sgn y = 0 then NaN else signed_inf (f_sgn x * f_sgn y))"

fun f_div :: "f64 \<Rightarrow> f64 \<Rightarrow> f64" where
  "f_div (Fin a) (Fin b) =
     (if b \<noteq> 0 then Fin (a / b) else if a = 0 then NaN else signed_inf a)"
| "f_div NaN _ = NaN"
| "f_div _ NaN = NaN"
| "f_div (Fin a) _ = Fin 0"
| "f_div x (Fin b) = signed_inf (f_sgn x * (if b < 0 then - 1 else 1))"
| "f_div _ _ = NaN"

fun f_lt :: "f64 \<Rightarrow> f64 \<Rightarrow> bool" where
  "f_lt (Fin a) (Fin b) = (a < b)"
| "f_lt NaN _ = False"
| "f_lt _ NaN = False"
| "f_lt NInf NInf = False"
| "f_lt NInf _ = True"
| "f_lt PInf _ = False"
| "f_lt _ PInf = True"
| "f_lt _ NInf = False"

fun f_eq :: "f64 \<Rightarrow> f64 \<Rightarrow> bool" where
  "f_eq NaN _ = False"
| "f_eq _ NaN = False"
| "f_eq x y = (x = y)"


definition f_gt :: "f64 \<Rightarrow> f64 \<Rightarrow> bool" where
  "f_gt x y = f_lt y x"


text \<open>\<^verbatim>\<open>math.Max\<close> and \<^verbatim>\<open>math.Min\<close>: an infinity of the winning sign is tested
  first, then NaN.\<close>

definition f_max :: "f64 \<Rightarrow> f64 \<Rightarrow> f64" where
  "f_max x y =
     (if x = PInf \<or> y = PInf then PInf
      else if isNaN x \<or> isNaN y then NaN
      else if f_gt x y then x else y)"

definition f_min :: "f64 \<Rightarrow> f64 \<Rightarrow> f64" where
  "f_min x y =
     (if x = NInf \<or> y = NInf then NInf
      else if isNaN x \<or> isNaN y then NaN
      else if f_lt x y then x else y)"


fun f_sqrt :: "f64 \<Rightarrow> f64" where
  "f_sqrt (Fin a) = (if a < 0 then NaN else Fin (sqrt a))"
| "f_sqrt PInf = PInf"
| "f_sqrt NInf = NaN"
| "f_sqrt NaN = NaN"


text \<open>The conversion \<^verbatim>\<open>float64(n)\<close> of an integer.\<close>

definition f_of_int :: "int \<Rightarrow> f64" where
  "f_of_int n = Fin (of_int n)"

text \<open>Signal directions and risk levels (internal/domain): a string type with three
  named constants, and an integer type with five.\<close>

type_synonym SignalDirection = string

definition DirectionLong :: SignalDirection where "DirectionLong = ''long''"

type_synonym RiskLevel = int

definition RiskLevel3 :: RiskLevel where "RiskLevel3 = 3"

section \<open>Model registry (internal/ml/features/repository.go, table ml_model_versions)\<close>

record MLModelVersion =
  mv_ID :: int
  mv_ModelKey :: string
  mv_Version :: int
  mv_FeatureSpecVersion :: string
  mv_TrainedFrom :: time
  mv_TrainedTo :: time
  mv_TrainedAt :: time
  mv_HyperparamsJSON :: string
  mv_MetricsJSON :: string
  mv_ArtifactFormat :: string
  mv_ArtifactBlob :: "nat list"
  mv_IsActive :: bool
  mv_ActivatedAt :: "time option"
  mv_CreatedAt :: time

text \<open>
  The table is the list of its rows in insertion order, with the counter of the
  \<^verbatim>\<open>BIGSERIAL\<close> primary key. The schema (migration 000006) declares
  \<^verbatim>\<open>UNIQUE (model_key, version)\<close> and the partial unique index
  \<^verbatim>\<open>idx_ml_model_versions_active_unique ON (model_key) WHERE is_active = TRUE\<close>;
  both are checked by the statements below.
\<close>

record registry =
  rows :: "MLModelVersion list"
  next_id :: int

definition empty_registry :: registry where
  "empty_registry = \<lparr>rows = [], next_id = 1\<rparr>"

definition fallbackJSON :: "string \<Rightarrow> string" where
  "fallbackJSON v = (if v = [] then ''{}'' else v)"

definition nullTime :: "time option \<Rightarrow> time option" where
  "nullTime v = (case v of None \<Rightarrow> None | Some t \<Rightarrow> if t = zero_time then None else Some t)"


definition active_rows :: "registry \<Rightarrow> string \<Rightarrow> MLModelVersion list" where
  "active_rows reg modelKey =
     filter (\<lambda>r. mv_ModelKey r = modelKey \<and> mv_IsActive r) (rows reg)"

definition target_rows :: "registry \<Rightarrow> string \<Rightarrow> int \<Rightarrow> MLModelVersion list" where
  "target_rows reg modelKey version =
     filter (\<lambda>r. mv_ModelKey r = modelKey \<and> mv_Version r = version) (rows reg)"


text \<open>
  \<^verbatim>\<open>InsertModelVersion\<close>: the payload check, then one \<^verbatim>\<open>INSERT ... RETURNING\<close>.
  \<^verbatim>\<open>is_active\<close> and \<^verbatim>\<open>activated_at\<close> are taken from the payload as they are;
  \<^verbatim>\<open>trained_at\<close> is \<^verbatim>\<open>COALESCE($6, NOW())\<close> with a zero time sent as NULL.
\<close>

definition InsertModelVersion ::
  "registry \<Rightarrow> MLModelVersion \<Rightarrow> time \<Rightarrow> (db_error + MLModelVersion) \<times> registry" where
  "InsertModelVersion reg model now =
     (if mv_ModelKey model = [] \<or> mv_Version model \<le> 0 then (Inl ErrInvalidPayload, reg)
      else if target_rows reg (mv_ModelKey model) (mv_Version model) \<noteq> []
        then (Inl ErrUniqueViolation, reg)
      else if mv_IsActive model \<and> active_rows reg (mv_ModelKey model) \<noteq> []
        then (Inl ErrUniqueViolation, reg)
      else
        let out = model
              \<lparr> mv_ID := next_id reg,
                mv_TrainedAt := (if mv_TrainedAt model = zero_time then now else mv_TrainedAt model),
                mv_HyperparamsJSON := fallbackJSON (mv_HyperparamsJSON model),
                mv_MetricsJSON := fallbackJSON (mv_MetricsJSON model),
                mv_ActivatedAt := nullTime (mv_ActivatedAt model),
                mv_CreatedAt := now \<rparr>
        in (Inr out, reg\<lparr>rows := rows reg @ [out], next_id := next_id reg + 1\<rparr>))"

text \<open>
  \<^verbatim>\<open>GetActiveModel\<close>: \<^verbatim>\<open>WHERE model_key = $1 AND is_active = TRUE ORDER BY version DESC LIMIT 1\<close>;
  no row is returned as nil.
\<close>

fun max_version_row :: "MLModelVersion list \<Rightarrow> MLModelVersion option" where
  "max_version_row [] = None"
| "max_version_row (r # rs) =
     (case max_version_row rs of
        None \<Rightarrow> Some r
      | Some r' \<Rightarrow> if mv_Version r' > mv_Version r then Some r' else Some r)"


text \<open>
  \<^verbatim>\<open>ActivateModel\<close>: inside one transaction, the first \<^verbatim>\<open>UPDATE\<close> clears
  \<^verbatim>\<open>is_active\<close> and \<^verbatim>\<open>activated_at\<close> on every row of the key, the second sets
  them on the rows matching (key, version). No row affected by the second statement
  returns \<^verbatim>\<open>pgx.ErrNoRows\<close> before the commit, and the deferred rollback restores the
  table. More than one row made active would violate the partial unique index.
\<close>

definition clear_active :: "string \<Rightarrow> MLModelVersion \<Rightarrow> MLModelVersion" where
  "clear_active modelKey r =
     (if mv_ModelKey r = modelKey then r\<lparr>mv_IsActive := False, mv_ActivatedAt := None\<rparr> else r)"

definition set_active :: "string \<Rightarrow> int \<Rightarrow> time \<Rightarrow> MLModelVersion \<Rightarrow> MLModelVersion" where
  "set_active modelKey version now r =
     (if mv_ModelKey r = modelKey \<and> mv_Version r = version
      then r\<lparr>mv_IsActive := True, mv_ActivatedAt := Some now\<rparr> else r)"

definition ActivateModel ::
  "registry \<Rightarrow> string \<Rightarrow> int \<Rightarrow> time \<Rightarrow> (db_error + unit) \<times> registry" where
  "ActivateModel reg modelKey version now =
     (let cleared = map (clear_active modelKey) (rows reg);
          affected = length (filter (\<lambda>r. mv_ModelKey r = modelKey \<and> mv_Version r = version) cleared)
      in if affected > 1 then (Inl ErrUniqueViolation, reg)
         else if affected = 0 then (Inl ErrNoRows, reg)
         else (Inr (), reg\<lparr>rows := map (set_active modelKey version now) cleared\<rparr>))"

text \<open>A history of the registry: any sequence of the two mutating operations, each
  with the clock reading of its statement. A failed operation leaves the table as it was.\<close>

datatype registry_op =
    OpInsert MLModelVersion time
  | OpActivate string int time

fun apply_op :: "registry \<Rightarrow> registry_op \<Rightarrow> registry" where
  "apply_op reg (OpInsert model now) = snd (InsertModelVersion reg model now)"
| "apply_op reg (OpActivate modelKey version now) = snd (ActivateModel reg modelKey version now)"

definition run_ops :: "registry \<Rightarrow> registry_op list \<Rightarrow> registry" where
  "run_ops reg ops = foldl apply_op reg ops"

text \<open>A small registry used to exercise the operations: two versions of one key, the first
  inserted as active, and one version of another key.\<close>

definition sample_model :: "string \<Rightarrow> int \<Rightarrow> bool \<Rightarrow> string \<Rightarrow> MLModelVersion" where
  "sample_model k v a m =
     \<lparr> mv_ID = 0, mv_ModelKey = k, mv_Version = v, mv_FeatureSpecVersion = ''v1'',
       mv_TrainedFrom = 0, mv_TrainedTo = 1000, mv_TrainedAt = zero_time,
       mv_HyperparamsJSON = [], mv_MetricsJSON = m, mv_ArtifactFormat = ''json/logreg-v1'',
       mv_ArtifactBlob = [123, 125], mv_IsActive = a,
       mv_ActivatedAt = (if a then Some 1000 else None), mv_CreatedAt = 0 \<rparr>"

definition sample_registry :: registry where
  "sample_registry = run_ops empty_registry
     [OpInsert (sample_model ''logreg'' 1 True ''{}'') 1000,
      OpInsert (sample_model ''logreg'' 2 False ''{}'') 2000,
      OpInsert (sample_model ''xgboost'' 1 False ''{}'') 2000]"

section \<open>Prediction store (package predictions, table ml_predictions)\<close>

record MLPrediction =
  p_ID :: int
  p_Symbol :: string
  p_Interval :: string
  p_OpenTime :: time
  p_TargetTime :: time
  p_ModelKey :: string
  p_ModelVersion :: int
  p_ProbUp :: f64
  p_Confidence :: f64
  p_Direction :: SignalDirection
  p_Risk :: RiskLevel
  p_SignalID :: "int option"
  p_DetailsJSON :: string
  p_CreatedAt :: time
  p_ResolvedAt :: "time option"
  p_ActualUp :: "bool option"
  p_IsCorrect :: "bool option"
  p_RealizedReturn :: "f64 option"

text \<open>
  \<^verbatim>\<open>ResolvePrediction\<close> is one statement:
  \<^verbatim>\<open>UPDATE ml_predictions SET resolved_at = NOW(), actual_up = $2, is_correct = $3,
  realized_return = $4 WHERE id = $1 AND resolved_at IS NULL\<close>,
  followed by \<^verbatim>\<open>pgx.ErrNoRows\<close> when no row was affected. The table is the list of
  its rows.
\<close>

definition unresolved_hit :: "int \<Rightarrow> MLPrediction \<Rightarrow> bool" where
  "unresolved_hit predictionID p = (p_ID p = predictionID \<and> p_ResolvedAt p = None)"

definition resolve_row :: "bool \<Rightarrow> bool \<Rightarrow> f64 \<Rightarrow> time \<Rightarrow> MLPrediction \<Rightarrow> MLPrediction" where
  "resolve_row actualUp isCorrect realizedReturn now p =
     p\<lparr> p_ResolvedAt := Some now, p_ActualUp := Some actualUp,
        p_IsCorrect := Some isCorrect, p_RealizedReturn := Some realizedReturn \<rparr>"

definition ResolvePrediction ::
  "MLPrediction list \<Rightarrow> int \<Rightarrow> bool \<Rightarrow> bool \<Rightarrow> f64 \<Rightarrow> time
     \<Rightarrow> (db_error + unit) \<times> MLPrediction list" where
  "ResolvePrediction tbl predictionID actualUp isCorrect realizedReturn now =
     (if filter (unresolved_hit predictionID) tbl = [] then (Inl ErrNoRows, tbl)
      else (Inr (),
            map (\<lambda>p. if unresolved_hit predictionID p
                      then resolve_row actualUp isCorrect realizedReturn now p else p) tbl))"

text \<open>Any number of resolvers, run one statement after the other in any interleaving:
  a list of calls, each with its arguments and the clock reading of its statement.\<close>

datatype resolve_call = Resolve int bool bool f64 time

fun apply_resolve :: "MLPrediction list \<Rightarrow> resolve_call \<Rightarrow> MLPrediction list" where
  "apply_resolve tbl (Resolve predictionID actualUp isCorrect realizedReturn now) =
     snd (ResolvePrediction tbl predictionID actualUp isCorrect realizedReturn now)"

definition run_resolves :: "MLPrediction list \<Rightarrow> resolve_call list \<Rightarrow> MLPrediction list" where
  "run_resolves tbl calls = foldl apply_resolve tbl calls"

text \<open>The four columns written by a resolve.\<close>

definition resolution :: "MLPrediction \<Rightarrow> time option \<times> bool option \<times> bool option \<times> f64 option" where
  "resolution p = (p_ResolvedAt p, p_ActualUp p, p_IsCorrect p, p_RealizedReturn p)"

definition sample_prediction :: "int \<Rightarrow> MLPrediction" where
  "sample_prediction i =
     \<lparr> p_ID = i, p_Symbol = ''BTC'', p_Interval = ''1h'', p_OpenTime = 0, p_TargetTime = 14400000,
       p_ModelKey = ''logreg'', p_ModelVersion = 1, p_ProbUp = Fin 0.7, p_Confidence = Fin 0.4,
       p_Direction = DirectionLong, p_Risk = RiskLevel3, p_SignalID = None, p_DetailsJSON = ''{}'',
       p_CreatedAt = 0, p_ResolvedAt = None, p_ActualUp = None, p_IsCorrect = None,
       p_RealizedReturn = None \<rparr>"

section \<open>Training service: the promotion gate (internal/ml/training/service.go)\<close>















section \<open>Rate limiter (package provider, \<^verbatim>\<open>RateLimiter\<close>)\<close>

text \<open>
  Instants and durations of the limiter are integers counting nanoseconds, as
  \<^verbatim>\<open>time.Duration\<close> does. The clock is an input: every call of \<^verbatim>\<open>time.Now()\<close> is a
  reading supplied by the caller of the model. Go's integer division truncates towards
  zero and panics on a zero divisor.
\<close>

record RateLimiter =
  tokens :: int
  maxTokens :: int
  refillInterval :: int
  lastRefill :: int

definition NewRateLimiter :: "int \<Rightarrow> int \<Rightarrow> int \<Rightarrow> RateLimiter" where
  "NewRateLimiter capacity interval now =
     \<lparr>tokens = capacity, maxTokens = capacity, refillInterval = interval, lastRefill = now\<rparr>"

definition go_quot :: "int \<Rightarrow> int \<Rightarrow> int" where
  "go_quot a b = sgn a * sgn b * (\<bar>a\<bar> div \<bar>b\<bar>)"

text \<open>\<^verbatim>\<open>refill\<close>; \<open>None\<close> is the division panic of a zero \<^verbatim>\<open>refillInterval\<close>.\<close>

definition refill :: "RateLimiter \<Rightarrow> int \<Rightarrow> RateLimiter option" where
  "refill r now =
     (if refillInterval r = 0 then None
      else
        let elapsed = now - lastRefill r;
            newTokens = go_quot elapsed (refillInterval r)
        in if newTokens > 0 then
             Some (r\<lparr> tokens := (if tokens r + newTokens > maxTokens r then maxTokens r
                                   else tokens r + newTokens),
                      lastRefill := lastRefill r + newTokens * refillInterval r \<rparr>)
           else Some r)"

text \<open>
  \<^verbatim>\<open>Wait\<close>. Each turn of the loop reads the clock and refills; with a token it takes
  one and returns nil. Without one it blocks in the \<^verbatim>\<open>select\<close>, whose outcome is the
  environment's: the context is done, or the timer of one \<^verbatim>\<open>refillInterval\<close> fires and
  the loop turns again. The environment is the list of (clock reading, select outcome)
  pairs of the successive turns; \<open>None\<close> means that the call is still blocked when
  the list ends.
\<close>

datatype select_event = CtxDone | TimerFired

datatype wait_result = Acquired | Cancelled | Panicked

fun Wait :: "RateLimiter \<Rightarrow> (int \<times> select_event) list \<Rightarrow> (wait_result \<times> RateLimiter) option" where
  "Wait r [] = None"
| "Wait r ((now, ev) # rest) =
     (case refill r now of
        None \<Rightarrow> Some (Panicked, r)
      | Some r' \<Rightarrow>
          if tokens r' > 0 then Some (Acquired, r'\<lparr>tokens := tokens r' - 1\<rparr>)
          else (case ev of
                  CtxDone \<Rightarrow> Some (Cancelled, r')
                | TimerFired \<Rightarrow> Wait r' rest))"

text \<open>The limiter after the refills of a sequence of clock readings, without any
  token taken.\<close>

fun refills :: "RateLimiter \<Rightarrow> int list \<Rightarrow> RateLimiter option" where
  "refills r [] = Some r"
| "refills r (now # nows) = (case refill r now of None \<Rightarrow> None | Some r' \<Rightarrow> refills r' nows)"

section \<open>Candle bucketer (internal/provider/coingecko.go)\<close>


definition go_int64 :: "real \<Rightarrow> int" where
  "go_int64 x = (if 0 \<le> x then \<lfloor>x\<rfloor> else \<lceil>x\<rceil>)"




















section \<open>Composite builder (package marketintel, \<^verbatim>\<open>BuildComposite\<close>)\<close>




text \<open>\<^verbatim>\<open>clamp\<close> of the package: NaN and the infinities become 0.\<close>

definition clamp :: "f64 \<Rightarrow> f64 \<Rightarrow> f64 \<Rightarrow> f64" where
  "clamp v lo hi =
     (if isNaN v \<or> isInf v then Fin 0
      else if f_lt v lo then lo
      else if f_gt v hi then hi
      else v)"














section \<open>Heuristic sentiment (package marketintel, \<^verbatim>\<open>HeuristicSentiment\<close>)\<close>

text \<open>
  Strings are byte lists. \<^verbatim>\<open>strings.Contains\<close> is the test for a contiguous
  substring. \<^verbatim>\<open>strings.ToLower\<close> and \<^verbatim>\<open>strings.TrimSpace\<close> work on Unicode code
  points; they are parameters of the model, \<open>toLower\<close> and \<open>trimSpace\<close>, and
  \<open>ascii_lower\<close> and \<open>ascii_trim_space\<close> below are what they compute on ASCII text.
\<close>

fun has_prefix :: "string \<Rightarrow> string \<Rightarrow> bool" where
  "has_prefix s [] = True"
| "has_prefix [] (c # cs) = False"
| "has_prefix (x # xs) (c # cs) = (x = c \<and> has_prefix xs cs)"

fun contains :: "string \<Rightarrow> string \<Rightarrow> bool" where
  "contains [] sub = (sub = [])"
| "contains (x # xs) sub = (has_prefix (x # xs) sub \<or> contains xs sub)"

definition countMatches :: "string \<Rightarrow> string list \<Rightarrow> int" where
  "countMatches text keywords = int (length (filter (contains text) keywords))"

definition absInt :: "int \<Rightarrow> int" where
  "absInt v = (if v < 0 then - v else v)"

definition bullish :: "string list" where
  "bullish = [''bull'', ''breakout'', ''surge'', ''rally'', ''adoption'', ''outflow'', ''growth'',
              ''buy'', ''uptrend'', ''recover'']"

definition bearish :: "string list" where
  "bearish = [''bear'', ''dump'', ''sell'', ''crash'', ''hack'', ''lawsuit'', ''ban'', ''inflow'',
              ''decline'', ''downtrend'', ''liquidation'']"

text \<open>The decimal digits of a count, as \<^verbatim>\<open>%d\<close> prints them.\<close>

fun decimal :: "nat \<Rightarrow> string" where
  "decimal n =
     (if n < 10 then [char_of (48 + n)] else decimal (n div 10) @ [char_of (48 + n mod 10)])"

definition format_int :: "int \<Rightarrow> string" where
  "format_int n = (if n < 0 then CHR ''-'' # decimal (nat (- n)) else decimal (nat n))"

definition HeuristicSentiment ::
  "(string \<Rightarrow> string) \<Rightarrow> (string \<Rightarrow> string) \<Rightarrow> string \<Rightarrow> string
     \<Rightarrow> f64 \<times> f64 \<times> string \<times> string" where
  "HeuristicSentiment toLower trimSpace title excerpt =
     (let text = toLower (trimSpace (title @ '' '' @ excerpt)) in
      if text = [] then (Fin 0, Fin 0.25, ''neutral'', ''empty-text'')
      else
        let bullCount = countMatches text bullish;
            bearCount = countMatches text bearish;
            raw = f_div (f_of_int (bullCount - bearCount)) (f_of_int (bullCount + bearCount + 1));
            score = clamp raw (Fin (- 1)) (Fin 1);
            confidence = clamp (f_add (Fin 0.35)
                                  (f_mul (Fin 0.1) (f_of_int (absInt (bullCount - bearCount)))))
                           (Fin 0.25) (Fin 0.70);
            label = (if f_gt score (Fin 0.2) then ''bullish''
                     else if f_lt score (Fin (- 0.2)) then ''bearish''
                     else ''neutral'');
            reason = ''heuristic keywords bull='' @ format_int bullCount
                       @ '' bear='' @ format_int bearCount
        in (score, confidence, label, reason))"

definition ascii_lower :: "string \<Rightarrow> string" where
  "ascii_lower s =
     map (\<lambda>c. if 65 \<le> (of_char c :: nat) \<and> (of_char c :: nat) \<le> 90
               then char_of ((of_char c :: nat) + 32) else c) s"

definition ascii_space :: "char \<Rightarrow> bool" where
  "ascii_space c = ((of_char c :: nat) \<in> {9, 10, 11, 12, 13, 32})"

definition ascii_trim_space :: "string \<Rightarrow> string" where
  "ascii_trim_space s = rev (dropWhile ascii_space (rev (dropWhile ascii_space s)))"

text \<open>The formulas of the specification for the two counts.\<close>

definition heuristic_score :: "int \<Rightarrow> int \<Rightarrow> real" where
  "heuristic_score bull bear = min 1 (max (- 1) (of_int (bull - bear) / of_int (bull + bear + 1)))"

definition heuristic_confidence :: "int \<Rightarrow> int \<Rightarrow> real" where
  "heuristic_confidence bull bear = min 0.70 (max 0.25 (0.35 + 0.1 * of_int \<bar>bull - bear\<bar>))"

definition heuristic_label :: "real \<Rightarrow> string" where
  "heuristic_label score =
     (if score > 0.2 then ''bullish'' else if score < - 0.2 then ''bearish'' else ''neutral'')"

section \<open>Technical indicators (internal/ta/indicators.go)\<close>

text \<open>A series is a list of floats; a nil slice is the empty list. \<open>None\<close> is an
  index panic.\<close>

definition MeanStd :: "f64 list \<Rightarrow> f64 \<times> f64" where
  "MeanStd vals =
     (if vals = [] then (Fin 0, Fin 0)
      else
        let sum = fold (\<lambda>v acc. f_add acc v) vals (Fin 0);
            mean = f_div sum (f_of_int (int (length vals)));
            variance = fold (\<lambda>v acc. f_add acc (f_mul (f_sub v mean) (f_sub v mean))) vals (Fin 0)
        in (mean, f_sqrt (f_div variance (f_of_int (int (length vals))))))"

fun ema_loop :: "f64 \<Rightarrow> f64 \<Rightarrow> f64 list \<Rightarrow> f64 list" where
  "ema_loop alpha prev [] = []"
| "ema_loop alpha prev (v # vs) =
     (let out = f_add (f_mul alpha v) (f_mul (f_sub (Fin 1) alpha) prev)
      in out # ema_loop alpha out vs)"

definition EMASeries :: "f64 list \<Rightarrow> int \<Rightarrow> f64 list" where
  "EMASeries vals period =
     (case vals of
        [] \<Rightarrow> []
      | v # vs \<Rightarrow>
          if period \<le> 1 then vals
          else v # ema_loop (f_div (Fin 2) (f_of_int (period + 1))) v vs)"

definition rsiFromAvg :: "f64 \<Rightarrow> f64 \<Rightarrow> f64" where
  "rsiFromAvg avgGain avgLoss =
     (if f_eq avgLoss (Fin 0) then Fin 100
      else f_sub (Fin 100) (f_div (Fin 100) (f_add (Fin 1) (f_div avgGain avgLoss))))"

text \<open>The first loop of \<^verbatim>\<open>RSISeries\<close>: the sums of the gains and of the losses over
  the indices 1 to \<open>period\<close>.\<close>

definition rsi_sums :: "f64 list \<Rightarrow> nat \<Rightarrow> f64 \<times> f64" where
  "rsi_sums closes period =
     fold (\<lambda>i (gainSum, lossSum).
             let delta = f_sub (closes ! i) (closes ! (i - 1))
             in if f_gt delta (Fin 0) then (f_add gainSum delta, lossSum)
                else (gainSum, f_sub lossSum delta))
       [1..<Suc period] (Fin 0, Fin 0)"

text \<open>One turn of the second loop: the smoothed averages at index \<open>i\<close> from those at
  \<open>i - 1\<close>.\<close>

definition rsi_smooth :: "f64 list \<Rightarrow> nat \<Rightarrow> nat \<Rightarrow> f64 \<times> f64 \<Rightarrow> f64 \<times> f64" where
  "rsi_smooth closes period i avgs =
     (let delta = f_sub (closes ! i) (closes ! (i - 1));
          gain = f_max delta (Fin 0);
          loss = f_max (f_neg delta) (Fin 0)
      in (f_div (f_add (f_mul (fst avgs) (f_of_int (int period - 1))) gain) (f_of_int (int period)),
          f_div (f_add (f_mul (snd avgs) (f_of_int (int period - 1))) loss) (f_of_int (int period))))"

fun rsi_loop :: "f64 list \<Rightarrow> nat \<Rightarrow> nat list \<Rightarrow> f64 \<times> f64 \<Rightarrow> f64 list \<Rightarrow> f64 list" where
  "rsi_loop closes period [] avgs series = series"
| "rsi_loop closes period (i # rest) avgs series =
     (let avgs' = rsi_smooth closes period i avgs
      in rsi_loop closes period rest avgs' (series[i := rsiFromAvg (fst avgs') (snd avgs')]))"

definition RSISeries :: "f64 list \<Rightarrow> int \<Rightarrow> f64 list option" where
  "RSISeries closes period =
     (if int (length closes) \<le> period then Some []
      else if period < 0 then None
      else
        let p = nat period;
            series = replicate (length closes) NaN;
            (gainSum, lossSum) = rsi_sums closes p;
            avgGain = f_div gainSum (f_of_int period);
            avgLoss = f_div lossSum (f_of_int period);
            series = series[p := rsiFromAvg avgGain avgLoss]
        in Some (rsi_loop closes p [Suc p..<length closes] (avgGain, avgLoss) series))"

definition MACDSeries :: "f64 list \<Rightarrow> int \<Rightarrow> int \<Rightarrow> int \<Rightarrow> f64 list \<times> f64 list" where
  "MACDSeries vals fast slow signal =
     (if vals = [] then ([], [])
      else
        let fastEMA = EMASeries vals fast;
            slowEMA = EMASeries vals slow;
            macdLine = map (\<lambda>i. f_sub (fastEMA ! i) (slowEMA ! i)) [0..<length vals];
            signalLine = EMASeries macdLine signal
        in (macdLine, signalLine))"

fun bollinger_loop ::
  "f64 list \<Rightarrow> nat \<Rightarrow> f64 \<Rightarrow> nat list \<Rightarrow> f64 list \<times> f64 list \<times> f64 list
     \<Rightarrow> f64 list \<times> f64 list \<times> f64 list" where
  "bollinger_loop vals period stdDevs [] bands = bands"
| "bollinger_loop vals period stdDevs (i # rest) (middle, upper, lower) =
     (let window = take period (drop (Suc i - period) vals);
          (mean, std) = MeanStd window
      in bollinger_loop vals period stdDevs rest
           (middle[i := mean],
            upper[i := f_add mean (f_mul stdDevs std)],
            lower[i := f_sub mean (f_mul stdDevs std)]))"

definition BollingerSeries :: "f64 list \<Rightarrow> int \<Rightarrow> f64 \<Rightarrow> f64 list \<times> f64 list \<times> f64 list" where
  "BollingerSeries vals period stdDevs =
     (if vals = [] then ([], [], [])
      else
        let nans = replicate (length vals) NaN in
        if period \<le> 0 then (nans, nans, nans)
        else bollinger_loop vals (nat period) stdDevs [nat period - 1..<length vals]
               (nans, nans, nans))"

text \<open>The Wilder averages as the specification words them: simple averages of the
  first \<open>period\<close> changes, then one smoothing step per later index. \<open>wilder_avgs closes
  period k\<close> are the averages at index \<open>period + k\<close>.\<close>

fun wilder_avgs :: "f64 list \<Rightarrow> nat \<Rightarrow> nat \<Rightarrow> f64 \<times> f64" where
  "wilder_avgs closes period 0 =
     (f_div (fst (rsi_sums closes period)) (f_of_int (int period)),
      f_div (snd (rsi_sums closes period)) (f_of_int (int period)))"
| "wilder_avgs closes period (Suc k) =
     rsi_smooth closes period (period + Suc k) (wilder_avgs closes period k)"

section \<open>Logistic regression classifier (package logreg)\<close>









section \<open>Verified properties\<close>

subsection \<open>Model registry: exclusivity of the active version\<close>

lemma active_rows_Insert:
  assumes "length (active_rows reg k) \<le> 1"
  shows "length (active_rows (snd (InsertModelVersion reg model now)) k) \<le> 1"
  using assms
  by (auto simp: InsertModelVersion_def active_rows_def Let_def)



lemma clear_active_sel [simp]:
  "mv_ModelKey (clear_active key r) = mv_ModelKey r"
  "mv_Version (clear_active key r) = mv_Version r"
  "mv_IsActive (clear_active key r) = (mv_ModelKey r \<noteq> key \<and> mv_IsActive r)"
  by (simp_all add: clear_active_def)

lemma set_active_sel [simp]:
  "mv_ModelKey (set_active key v now r) = mv_ModelKey r"
  "mv_Version (set_active key v now r) = mv_Version r"
  "mv_IsActive (set_active key v now r) = ((mv_ModelKey r = key \<and> mv_Version r = v) \<or> mv_IsActive r)"
  by (auto simp: set_active_def)

lemma filter_set_active_clear:
  "filter (\<lambda>r. mv_ModelKey r = k \<and> mv_IsActive r)
      (map (set_active key v now) (map (clear_active key) xs)) =
   (if k = key
    then map (set_active key v now)
           (filter (\<lambda>r. mv_ModelKey r = key \<and> mv_Version r = v) (map (clear_active key) xs))
    else filter (\<lambda>r. mv_ModelKey r = k \<and> mv_IsActive r) xs)"
proof (induction xs)
  case Nil then show ?case by simp
next
  case (Cons x xs)
  show ?case
  proof (cases "k = key")
    case True
    with Cons show ?thesis by simp
  next
    case False
    have "set_active key v now (clear_active key x) = x" if "mv_ModelKey x = k"
      using that False by (simp add: set_active_def clear_active_def)
    with Cons False show ?thesis by auto
  qed
qed

lemma ActivateModel_cases:
  "ActivateModel reg key v now =
     (if length (filter (\<lambda>r. mv_ModelKey r = key \<and> mv_Version r = v) (map (clear_active key) (rows reg))) > 1
        then (Inl ErrUniqueViolation, reg)
      else if length (filter (\<lambda>r. mv_ModelKey r = key \<and> mv_Version r = v) (map (clear_active key) (rows reg))) = 0
        then (Inl ErrNoRows, reg)
      else (Inr (), reg\<lparr>rows := map (set_active key v now) (map (clear_active key) (rows reg))\<rparr>))"
  unfolding ActivateModel_def Let_def by (rule refl)

lemma active_rows_Activate:
  assumes "length (active_rows reg k) \<le> 1"
  shows "length (active_rows (snd (ActivateModel reg key v now)) k) \<le> 1"
proof -
  let ?n = "length (filter (\<lambda>r. mv_ModelKey r = key \<and> mv_Version r = v) (map (clear_active key) (rows reg)))"
  consider "?n > 1" | "?n = 0" | "?n = 1" by linarith
  then show ?thesis
  proof cases
    case 1 then show ?thesis using assms by (simp only: ActivateModel_cases if_True snd_conv)
  next
    case 2 then show ?thesis using assms by (simp only: ActivateModel_cases) simp
  next
    case 3
    then have eq: "snd (ActivateModel reg key v now) =
        reg\<lparr>rows := map (set_active key v now) (map (clear_active key) (rows reg))\<rparr>"
      by (simp only: ActivateModel_cases) simp
    have rw: "rows (snd (ActivateModel reg key v now)) =
        map (set_active key v now) (map (clear_active key) (rows reg))"
      unfolding eq by simp
    show ?thesis
    proof (cases "k = key")
      case True
      have "active_rows (snd (ActivateModel reg key v now)) k =
          map (set_active key v now)
           (filter (\<lambda>r. mv_ModelKey r = key \<and> mv_Version r = v) (map (clear_active key) (rows reg)))"
        unfolding active_rows_def using True
        by (simp only: rw filter_set_active_clear) simp
      then show ?thesis using 3 by (simp only: length_map)
    next
      case False
      have "active_rows (snd (ActivateModel reg key v now)) k = active_rows reg k"
        unfolding active_rows_def using False
        by (simp only: rw filter_set_active_clear) simp
      then show ?thesis using assms by simp
    qed
  qed
qed

lemma run_ops_I1:
  assumes "\<forall>k. length (active_rows reg k) \<le> 1"
  shows "length (active_rows (run_ops reg ops) k) \<le> 1"
  using assms unfolding run_ops_def
proof (induction ops arbitrary: reg k)
  case Nil then show ?case by simp
next
  case (Cons op ops)
  have "\<forall>k. length (active_rows (apply_op reg op) k) \<le> 1"
  proof (cases op)
    case (OpInsert m t)
    then show ?thesis using Cons.prems active_rows_Insert by simp
  next
    case (OpActivate key v t)
    then show ?thesis using Cons.prems active_rows_Activate by simp
  qed
  then show ?case using Cons.IH by simp
qed

lemma target_rows_clear:
  "filter (\<lambda>r. mv_ModelKey r = key \<and> mv_Version r = v) (map (clear_active key) xs) =
   map (clear_active key) (filter (\<lambda>r. mv_ModelKey r = key \<and> mv_Version r = v) xs)"
  by (induction xs) (auto simp: clear_active_def)

lemma Activate_missing:
  "target_rows reg k v = [] \<Longrightarrow> ActivateModel reg k v now = (Inl ErrNoRows, reg)"
  by (simp only: ActivateModel_cases target_rows_clear target_rows_def) simp

lemma Activate_ok:
  assumes "ActivateModel reg k v now = (Inr (), reg')"
  shows "rows reg' = map (set_active k v now) (map (clear_active k) (rows reg))
     \<and> map mv_Version (active_rows reg' k) = [v]
     \<and> map mv_ActivatedAt (active_rows reg' k) = [Some now]"
proof -
  let ?T = "filter (\<lambda>r. mv_ModelKey r = k \<and> mv_Version r = v) (map (clear_active k) (rows reg))"
  have n1: "\<not> length ?T > 1"
  proof
    assume "length ?T > 1"
    then have "ActivateModel reg k v now = (Inl ErrUniqueViolation, reg)"
      by (simp only: ActivateModel_cases if_True)
    with assms show False by simp
  qed
  have n0: "length ?T \<noteq> 0"
  proof
    assume "length ?T = 0"
    then have "ActivateModel reg k v now = (Inl ErrNoRows, reg)"
      by (simp only: ActivateModel_cases) simp
    with assms show False by simp
  qed
  from n0 n1 have n: "length ?T = 1" by linarith
  have "ActivateModel reg k v now =
      (Inr (), reg\<lparr>rows := map (set_active k v now) (map (clear_active k) (rows reg))\<rparr>)"
    using n0 n1 by (simp only: ActivateModel_cases if_False)
  with assms have eq: "reg' = reg\<lparr>rows := map (set_active k v now) (map (clear_active k) (rows reg))\<rparr>"
    by simp
  have rw: "rows reg' = map (set_active k v now) (map (clear_active k) (rows reg))"
    unfolding eq by simp
  from n obtain r where r: "?T = [r]" by (cases ?T) simp_all
  have "r \<in> set ?T" unfolding r by simp
  then have rk: "mv_ModelKey r = k \<and> mv_Version r = v" by (simp only: set_filter mem_Collect_eq)
  have "active_rows reg' k = map (set_active k v now) ?T"
    unfolding active_rows_def by (simp only: rw filter_set_active_clear) simp
  then have ar: "active_rows reg' k = [set_active k v now r]" by (simp only: r list.map)
  have "mv_Version (set_active k v now r) = v" "mv_ActivatedAt (set_active k v now r) = Some now"
    using rk by (simp_all add: set_active_def)
  then show ?thesis unfolding ar using rw by simp
qed


text \<open>
  Claim C1 (model exclusivity, invariant I1). After any sequence of
  \<^verbatim>\<open>InsertModelVersion\<close> and \<^verbatim>\<open>ActivateModel\<close> calls, starting from the empty table
  or from any table that satisfies the invariant, at most one row of every model key is
  active. \<^verbatim>\<open>ActivateModel\<close> fails with \<^verbatim>\<open>ErrNoRows\<close> and leaves the table unchanged
  when no row has the target (key, version); when it succeeds, the table is the old one
  with the flag cleared on every row of the key and then set, with the activation time,
  on the target row, which is then the only active row of the key.
\<close>

theorem model_exclusivity_I1:
  "length (active_rows (run_ops empty_registry ops) modelKey) \<le> 1
   \<and> ((\<forall>k. length (active_rows reg k) \<le> 1) \<longrightarrow>
        length (active_rows (run_ops reg ops) modelKey) \<le> 1)
   \<and> (target_rows reg key v = [] \<longrightarrow> ActivateModel reg key v now = (Inl ErrNoRows, reg))
   \<and> (ActivateModel reg key v now = (Inr (), reg') \<longrightarrow>
        rows reg' = map (set_active key v now) (map (clear_active key) (rows reg))
        \<and> map mv_Version (active_rows reg' key) = [v]
        \<and> map mv_ActivatedAt (active_rows reg' key) = [Some now])"
proof -
  have "\<forall>k. length (active_rows empty_registry k) \<le> 1"
    by (simp add: active_rows_def empty_registry_def)
  then have "length (active_rows (run_ops empty_registry ops) modelKey) \<le> 1"
    by (rule run_ops_I1)
  then show ?thesis
    using run_ops_I1 [of reg ops modelKey] Activate_missing [of reg key v now]
      Activate_ok [of reg key v now reg']
    by blast
qed

lemma sample_registry_eq:
  "sample_registry =
     \<lparr>rows =
        [(sample_model ''logreg'' 1 True ''{}'')\<lparr>mv_ID := 1, mv_TrainedAt := 1000,
            mv_HyperparamsJSON := ''{}'', mv_CreatedAt := 1000\<rparr>,
         (sample_model ''logreg'' 2 False ''{}'')\<lparr>mv_ID := 2, mv_TrainedAt := 2000,
            mv_HyperparamsJSON := ''{}'', mv_CreatedAt := 2000\<rparr>,
         (sample_model ''xgboost'' 1 False ''{}'')\<lparr>mv_ID := 3, mv_TrainedAt := 2000,
            mv_HyperparamsJSON := ''{}'', mv_CreatedAt := 2000\<rparr>],
      next_id = 4\<rparr>"
  by (simp add: sample_registry_def run_ops_def empty_registry_def InsertModelVersion_def
      sample_model_def target_rows_def active_rows_def nullTime_def zero_time_def Let_def
      fallbackJSON_def)

theorem model_exclusivity_I1_witness:
  "target_rows sample_registry ''logreg'' 7 = []
   \<and> ActivateModel sample_registry ''logreg'' 7 3000 = (Inl ErrNoRows, sample_registry)
   \<and> fst (ActivateModel sample_registry ''logreg'' 2 3000) = Inr ()
   \<and> map mv_Version (active_rows (snd (ActivateModel sample_registry ''logreg'' 2 3000)) ''logreg'') = [2]
   \<and> map mv_ActivatedAt (active_rows (snd (ActivateModel sample_registry ''logreg'' 2 3000)) ''logreg'')
        = [Some 3000]
   \<and> (\<forall>k. length (active_rows sample_registry k) \<le> 1)
   \<and> length (active_rows (run_ops sample_registry
          [OpActivate ''logreg'' 2 3000, OpInsert (sample_model ''logreg'' 3 True ''{}'') 4000,
           OpActivate ''logreg'' 9 5000]) ''logreg'') \<le> 1"
proof -
  have t7: "target_rows sample_registry ''logreg'' 7 = []"
    by (simp add: sample_registry_eq target_rows_def sample_model_def)
  have inv: "\<forall>k. length (active_rows sample_registry k) \<le> 1"
    by (simp add: sample_registry_eq active_rows_def sample_model_def)
  have ok: "fst (ActivateModel sample_registry ''logreg'' 2 3000) = Inr ()"
    by (simp add: sample_registry_eq ActivateModel_def clear_active_def sample_model_def)
  then have run: "ActivateModel sample_registry ''logreg'' 2 3000 =
      (Inr (), snd (ActivateModel sample_registry ''logreg'' 2 3000))"
    by (metis prod.collapse)
  show ?thesis
    using t7 inv ok run
      model_exclusivity_I1 [of _ _ sample_registry "''logreg''" 7 3000]
      model_exclusivity_I1 [of "[OpActivate ''logreg'' 2 3000,
           OpInsert (sample_model ''logreg'' 3 True ''{}'') 4000, OpActivate ''logreg'' 9 5000]"
        "''logreg''" sample_registry "''logreg''" 2 3000
        "snd (ActivateModel sample_registry ''logreg'' 2 3000)"]
    by blast
qed

subsection \<open>Prediction store: a prediction is resolved at most once\<close>

lemma Resolve_noop:
  assumes "filter (unresolved_hit i) tbl = []"
  shows "ResolvePrediction tbl i a c r now = (Inl ErrNoRows, tbl)"
  using assms by (simp add: ResolvePrediction_def)

lemma resolve_row_sel [simp]:
  "p_ID (resolve_row a c r now p) = p_ID p"
  "p_ResolvedAt (resolve_row a c r now p) = Some now"
  by (simp_all add: resolve_row_def)

lemma Resolve_length [simp]:
  "length (snd (ResolvePrediction tbl i a c r now)) = length tbl"
  by (simp add: ResolvePrediction_def)

lemma Resolve_keeps_resolved:
  assumes "n < length tbl" "p_ResolvedAt (tbl ! n) \<noteq> None"
  shows "snd (ResolvePrediction tbl i a c r now) ! n = tbl ! n"
  using assms by (auto simp: ResolvePrediction_def unresolved_hit_def)

lemma Resolve_then_none:
  "filter (unresolved_hit i) (snd (ResolvePrediction tbl i a c r now)) = []"
  by (auto simp: ResolvePrediction_def filter_empty_conv unresolved_hit_def)

lemma run_resolves_length [simp]: "length (run_resolves tbl calls) = length tbl"
  unfolding run_resolves_def
proof (induction calls arbitrary: tbl)
  case Nil then show ?case by simp
next
  case (Cons c cs) then show ?case by (cases c) simp
qed

lemma run_resolves_keeps:
  assumes "n < length tbl" "p_ResolvedAt (tbl ! n) \<noteq> None"
  shows "run_resolves tbl calls ! n = tbl ! n"
  using assms unfolding run_resolves_def
proof (induction calls arbitrary: tbl)
  case Nil then show ?case by simp
next
  case (Cons c cs)
  obtain i a k r now where c: "c = Resolve i a k r now" by (cases c) auto
  let ?t = "snd (ResolvePrediction tbl i a k r now)"
  have eq: "?t ! n = tbl ! n" using Cons.prems by (rule Resolve_keeps_resolved)
  have "foldl apply_resolve ?t cs ! n = ?t ! n"
    by (rule Cons.IH) (use Cons.prems eq in simp_all)
  then show ?case using c eq by simp
qed


text \<open>
  Claim C9 (prediction resolution is monotone and at most once). A resolve attempt on an
  id with no unresolved row returns \<^verbatim>\<open>ErrNoRows\<close> and leaves the table unchanged; in
  particular a resolve that directly follows a resolve of the same id does. Through any
  sequence of resolve statements, with any arguments, a row whose \<^verbatim>\<open>resolved_at\<close> is
  set stays exactly as it is, so the four resolution columns are written once, by the
  statement that found \<^verbatim>\<open>resolved_at IS NULL\<close>, and never again.
\<close>

theorem resolution_at_most_once:
  "(filter (unresolved_hit i) tbl = [] \<longrightarrow>
      ResolvePrediction tbl i a c r now = (Inl ErrNoRows, tbl))
   \<and> ResolvePrediction (snd (ResolvePrediction tbl i a c r now)) i a' c' r' now' =
        (Inl ErrNoRows, snd (ResolvePrediction tbl i a c r now))
   \<and> (n < length tbl \<and> p_ResolvedAt (tbl ! n) \<noteq> None \<longrightarrow>
        run_resolves tbl calls ! n = tbl ! n
        \<and> resolution (run_resolves tbl calls ! n) = resolution (tbl ! n))
   \<and> length (run_resolves tbl calls) = length tbl"
proof -
  let ?t = "snd (ResolvePrediction tbl i a c r now)"
  have "filter (unresolved_hit i) ?t = []" by (rule Resolve_then_none)
  then have "ResolvePrediction ?t i a' c' r' now' = (Inl ErrNoRows, ?t)"
    by (rule Resolve_noop)
  then show ?thesis
    using Resolve_noop [of i tbl a c r now] run_resolves_keeps [of n tbl calls]
    by simp
qed

theorem resolution_at_most_once_witness:
  "ResolvePrediction [sample_prediction 1, sample_prediction 2] 2 True True (Fin 0.03) 5000 =
     (Inr (), [sample_prediction 1, resolve_row True True (Fin 0.03) 5000 (sample_prediction 2)])
   \<and> (1::nat) < length [sample_prediction 1, resolve_row True True (Fin 0.03) 5000 (sample_prediction 2)]
   \<and> p_ResolvedAt ([sample_prediction 1, resolve_row True True (Fin 0.03) 5000 (sample_prediction 2)] ! 1)
        \<noteq> None
   \<and> filter (unresolved_hit 2)
        [sample_prediction 1, resolve_row True True (Fin 0.03) 5000 (sample_prediction 2)] = []
   \<and> ResolvePrediction
        [sample_prediction 1, resolve_row True True (Fin 0.03) 5000 (sample_prediction 2)]
        2 False False (Fin (- 0.5)) 9000 =
      (Inl ErrNoRows, [sample_prediction 1, resolve_row True True (Fin 0.03) 5000 (sample_prediction 2)])
   \<and> resolution (run_resolves
        [sample_prediction 1, resolve_row True True (Fin 0.03) 5000 (sample_prediction 2)]
        [Resolve 2 False False (Fin (- 0.5)) 9000, Resolve 1 False True (Fin 0) 9500,
         Resolve 2 True False (Fin 1) 9900] ! 1)
      = (Some 5000, Some True, Some True, Some (Fin 0.03))"
proof -
  let ?t = "[sample_prediction 1, resolve_row True True (Fin 0.03) 5000 (sample_prediction 2)]"
  have first: "ResolvePrediction [sample_prediction 1, sample_prediction 2] 2 True True (Fin 0.03) 5000 =
     (Inr (), ?t)"
    by (simp add: ResolvePrediction_def unresolved_hit_def sample_prediction_def)
  have h1: "(1::nat) < length ?t" by simp
  have h2: "p_ResolvedAt (?t ! 1) \<noteq> None" by simp
  have h3: "filter (unresolved_hit 2) ?t = []"
    by (simp add: unresolved_hit_def sample_prediction_def)
  have res: "resolution (?t ! 1) = (Some 5000, Some True, Some True, Some (Fin 0.03))"
    by (simp add: resolution_def resolve_row_def)
  show ?thesis
    using first h1 h2 h3 res
      resolution_at_most_once [of 2 ?t False False "Fin (- 0.5)" 9000 _ _ _ _ 1
        "[Resolve 2 False False (Fin (- 0.5)) 9000, Resolve 1 False True (Fin 0) 9500,
          Resolve 2 True False (Fin 1) 9900]"]
    by simp
qed

subsection \<open>Training service: the promotion gate\<close>


lemma max_version_row_None [simp]:
  "(max_version_row xs = None) = (xs = [])"
  by (induction xs) (auto split: option.splits)




























subsection \<open>Rate limiter: the lazy refill law\<close>

lemma go_quot_nonneg: "0 \<le> a \<Longrightarrow> 0 < b \<Longrightarrow> go_quot a b = a div b"
  by (cases "a = 0") (simp_all add: go_quot_def)

lemma refill_Some:
  assumes "refillInterval r \<noteq> 0"
  shows "refill r now =
     Some (if 0 < go_quot (now - lastRefill r) (refillInterval r)
           then r\<lparr> tokens := min (tokens r + go_quot (now - lastRefill r) (refillInterval r)) (maxTokens r),
                    lastRefill := lastRefill r
                       + go_quot (now - lastRefill r) (refillInterval r) * refillInterval r \<rparr>
           else r)"
  using assms by (simp add: refill_def Let_def min_def)

lemma refill_law:
  assumes "0 < refillInterval r" "lastRefill r \<le> now"
  shows "\<exists>r'. refill r now = Some r'
    \<and> tokens r' = (if 0 < (now - lastRefill r) div refillInterval r
                   then min (tokens r + (now - lastRefill r) div refillInterval r) (maxTokens r)
                   else tokens r)
    \<and> lastRefill r' = lastRefill r + ((now - lastRefill r) div refillInterval r) * refillInterval r
    \<and> now - lastRefill r' = (now - lastRefill r) mod refillInterval r
    \<and> lastRefill r' \<le> now \<and> now - lastRefill r' < refillInterval r
    \<and> maxTokens r' = maxTokens r \<and> refillInterval r' = refillInterval r"
proof -
  define e where "e = now - lastRefill r"
  define d where "d = refillInterval r"
  define q where "q = e div d"
  have d: "0 < d" and e: "0 \<le> e" using assms by (simp_all add: d_def e_def)
  have gq: "go_quot (now - lastRefill r) (refillInterval r) = q"
    using d e by (simp add: go_quot_nonneg q_def e_def d_def)
  have q0: "0 \<le> q" using d e by (simp add: q_def pos_imp_zdiv_nonneg_iff)
  have m: "e - q * d = e mod d" by (simp add: q_def minus_div_mult_eq_mod)
  have m0: "0 \<le> e mod d" "e mod d < d" using d by simp_all
  have lr: "now - (lastRefill r + q * d) = e mod d" using m by (simp add: e_def)
  define r' where "r' = (if 0 < q then r\<lparr> tokens := min (tokens r + q) (maxTokens r),
                    lastRefill := lastRefill r + q * d \<rparr> else r)"
  have run: "refill r now = Some r'"
  proof -
    have "refillInterval r \<noteq> 0" using assms by simp
    then have "refill r now =
     Some (if 0 < go_quot (now - lastRefill r) (refillInterval r)
           then r\<lparr> tokens := min (tokens r + go_quot (now - lastRefill r) (refillInterval r)) (maxTokens r),
                    lastRefill := lastRefill r
                       + go_quot (now - lastRefill r) (refillInterval r) * refillInterval r \<rparr>
           else r)" by (rule refill_Some)
    then show ?thesis unfolding gq r'_def d_def .
  qed
  have l: "lastRefill r' = lastRefill r + q * d" using q0 by (auto simp: r'_def)
  have t: "tokens r' = (if 0 < q then min (tokens r + q) (maxTokens r) else tokens r)"
    by (simp add: r'_def)
  have k: "maxTokens r' = maxTokens r \<and> refillInterval r' = refillInterval r"
    by (simp add: r'_def)
  have f: "now - lastRefill r' = e mod d" using lr l by simp
  have "lastRefill r' \<le> now \<and> now - lastRefill r' < d" using f m0 by linarith
  then show ?thesis using run l t k f unfolding q_def e_def d_def by blast
qed


lemma Wait_token:
  "refill r now = Some r1 \<Longrightarrow> 0 < tokens r1 \<Longrightarrow>
   Wait r ((now, ev) # rest) = Some (Acquired, r1\<lparr>tokens := tokens r1 - 1\<rparr>)"
  by simp

lemma Wait_cancel:
  "refill r now = Some r1 \<Longrightarrow> tokens r1 \<le> 0 \<Longrightarrow>
   Wait r ((now, CtxDone) # rest) = Some (Cancelled, r1)"
  by simp

lemma Wait_timer:
  "refill r now = Some r1 \<Longrightarrow> tokens r1 \<le> 0 \<Longrightarrow>
   Wait r ((now, TimerFired) # rest) = Wait r1 rest"
  by simp

lemma Wait_Acquired:
  "Wait r tr = Some (Acquired, r'') \<Longrightarrow>
   \<exists>n r0. n < length tr \<and> refills r (map fst (take (Suc n) tr)) = Some r0
      \<and> 0 < tokens r0 \<and> r'' = r0\<lparr>tokens := tokens r0 - 1\<rparr>"
proof (induction r tr rule: Wait.induct)
  case (1 r)
  then show ?case by simp
next
  case (2 r now ev rest)
  show ?case
  proof (cases "refill r now")
    case None
    with 2 show ?thesis by simp
  next
    case (Some r1)
    show ?thesis
    proof (cases "0 < tokens r1")
      case True
      with Some 2(2) have "r'' = r1\<lparr>tokens := tokens r1 - 1\<rparr>" by simp
      with Some True show ?thesis by (intro exI [of _ 0] exI [of _ r1]) simp
    next
      case False
      show ?thesis
      proof (cases ev)
        case CtxDone
        with Some False 2(2) show ?thesis by simp
      next
        case TimerFired
        with Some False 2(2) have "Wait r1 rest = Some (Acquired, r'')" by simp
        with 2(1) [OF Some False TimerFired] obtain n r0 where
          "n < length rest" "refills r1 (map fst (take (Suc n) rest)) = Some r0"
          "0 < tokens r0" "r'' = r0\<lparr>tokens := tokens r0 - 1\<rparr>" by blast
        with Some show ?thesis by (intro exI [of _ "Suc n"] exI [of _ r0]) simp
      qed
    qed
  qed
qed

lemma Wait_Cancelled:
  "Wait r tr = Some (Cancelled, r'') \<Longrightarrow> tokens r'' \<le> 0"
proof (induction r tr rule: Wait.induct)
  case (1 r)
  then show ?case by simp
next
  case (2 r now ev rest)
  then show ?case
    by (cases "refill r now"; cases ev) (auto split: if_splits)
qed


text \<open>
  Claim C4 (lazy refill law of the rate limiter). With a positive refill interval and a
  clock that has not run backwards, \<^verbatim>\<open>refill\<close> mints the elapsed time since
  \<^verbatim>\<open>lastRefill\<close> integer-divided by \<^verbatim>\<open>refillInterval\<close>; when that is positive the
  token count becomes the minimum of the sum and \<^verbatim>\<open>maxTokens\<close>; \<^verbatim>\<open>lastRefill\<close>
  advances by minted times interval, so that the remainder of the division is still
  counted as elapsed at the next refill. \<^verbatim>\<open>Wait\<close> returns nil only from a state
  reached by refills that holds a token, with the count one lower; when no token is
  available after the refill and the context is done, it returns the cancellation error;
  and it returns that error only with no token available.
\<close>

theorem rate_limiter_lazy_refill:
  "(0 < refillInterval r \<and> lastRefill r \<le> now \<longrightarrow>
     (\<exists>r'. refill r now = Some r'
        \<and> tokens r' = (if 0 < (now - lastRefill r) div refillInterval r
                       then min (tokens r + (now - lastRefill r) div refillInterval r) (maxTokens r)
                       else tokens r)
        \<and> lastRefill r' = lastRefill r + ((now - lastRefill r) div refillInterval r) * refillInterval r
        \<and> now - lastRefill r' = (now - lastRefill r) mod refillInterval r
        \<and> lastRefill r' \<le> now \<and> now - lastRefill r' < refillInterval r
        \<and> maxTokens r' = maxTokens r \<and> refillInterval r' = refillInterval r))
   \<and> (Wait r tr = Some (Acquired, r'') \<longrightarrow>
        (\<exists>n r0. n < length tr \<and> refills r (map fst (take (Suc n) tr)) = Some r0
           \<and> 0 < tokens r0 \<and> r'' = r0\<lparr>tokens := tokens r0 - 1\<rparr>))
   \<and> (refill r now = Some r1 \<and> tokens r1 \<le> 0 \<longrightarrow>
        Wait r ((now, CtxDone) # rest) = Some (Cancelled, r1))
   \<and> (Wait r tr = Some (Cancelled, r'') \<longrightarrow> tokens r'' \<le> 0)"
proof (intro conjI impI)
  assume "0 < refillInterval r \<and> lastRefill r \<le> now"
  then show "\<exists>r'. refill r now = Some r'
        \<and> tokens r' = (if 0 < (now - lastRefill r) div refillInterval r
                       then min (tokens r + (now - lastRefill r) div refillInterval r) (maxTokens r)
                       else tokens r)
        \<and> lastRefill r' = lastRefill r + ((now - lastRefill r) div refillInterval r) * refillInterval r
        \<and> now - lastRefill r' = (now - lastRefill r) mod refillInterval r
        \<and> lastRefill r' \<le> now \<and> now - lastRefill r' < refillInterval r
        \<and> maxTokens r' = maxTokens r \<and> refillInterval r' = refillInterval r"
    using refill_law [of r now] by (elim conjE) simp
next
  assume "Wait r tr = Some (Acquired, r'')"
  then show "\<exists>n r0. n < length tr \<and> refills r (map fst (take (Suc n) tr)) = Some r0
           \<and> 0 < tokens r0 \<and> r'' = r0\<lparr>tokens := tokens r0 - 1\<rparr>"
    by (rule Wait_Acquired)
next
  assume "refill r now = Some r1 \<and> tokens r1 \<le> 0"
  then show "Wait r ((now, CtxDone) # rest) = Some (Cancelled, r1)"
    using Wait_cancel [of r now r1 rest] by (elim conjE) simp
next
  assume "Wait r tr = Some (Cancelled, r'')"
  then show "tokens r'' \<le> 0" by (rule Wait_Cancelled)
qed


theorem rate_limiter_lazy_refill_witness:
  "0 < refillInterval \<lparr>tokens = 0, maxTokens = 1, refillInterval = 5000000, lastRefill = 0\<rparr>
   \<and> lastRefill \<lparr>tokens = 0, maxTokens = 1, refillInterval = 5000000, lastRefill = 0\<rparr> \<le> 12000000
   \<and> (\<exists>r'. refill \<lparr>tokens = 0, maxTokens = 1, refillInterval = 5000000, lastRefill = 0\<rparr> 12000000
              = Some r'
          \<and> tokens r' = 1 \<and> lastRefill r' = 10000000 \<and> 12000000 - lastRefill r' = 2000000)
   \<and> Wait (NewRateLimiter 1 5000000 0) [(1000, TimerFired)] =
        Some (Acquired, \<lparr>tokens = 0, maxTokens = 1, refillInterval = 5000000, lastRefill = 0\<rparr>)
   \<and> refill \<lparr>tokens = 0, maxTokens = 1, refillInterval = 5000000, lastRefill = 0\<rparr> 2000 =
        Some \<lparr>tokens = 0, maxTokens = 1, refillInterval = 5000000, lastRefill = 0\<rparr>
   \<and> Wait \<lparr>tokens = 0, maxTokens = 1, refillInterval = 5000000, lastRefill = 0\<rparr>
          [(2000, CtxDone)] =
        Some (Cancelled, \<lparr>tokens = 0, maxTokens = 1, refillInterval = 5000000, lastRefill = 0\<rparr>)
   \<and> tokens (snd (the (Wait \<lparr>tokens = 0, maxTokens = 1, refillInterval = 5000000, lastRefill = 0\<rparr>
          [(2000, TimerFired), (12000000, CtxDone)]))) = 0"
proof -
  let ?L = "\<lparr>tokens = 0, maxTokens = 1, refillInterval = 5000000, lastRefill = 0\<rparr> :: RateLimiter"
  have h: "0 < refillInterval ?L \<and> lastRefill ?L \<le> 12000000" by simp
  have q: "go_quot 2000 5000000 = 0" "go_quot 1000 5000000 = 0" "go_quot 12000000 5000000 = 2"
    by (simp_all add: go_quot_def)
  have r2: "refill ?L 2000 = Some ?L"
    by (simp add: refill_def Let_def q)
  have t0: "tokens ?L \<le> 0" by simp
  have w1: "Wait (NewRateLimiter 1 5000000 0) [(1000, TimerFired)] = Some (Acquired, ?L)"
    by (simp add: NewRateLimiter_def refill_def Let_def q)
  have w3: "Wait ?L [(2000, TimerFired), (12000000, CtxDone)] =
      Some (Acquired, \<lparr>tokens = 0, maxTokens = 1, refillInterval = 5000000, lastRefill = 10000000\<rparr>)"
    by (simp add: refill_def Let_def q)
  from rate_limiter_lazy_refill [of ?L 12000000, THEN conjunct1, THEN mp, OF h]
  obtain r' where r': "refill ?L 12000000 = Some r'"
     "tokens r' = (if 0 < (12000000 - lastRefill ?L) div refillInterval ?L
                       then min (tokens ?L + (12000000 - lastRefill ?L) div refillInterval ?L) (maxTokens ?L)
                       else tokens ?L)"
     "lastRefill r' = lastRefill ?L + ((12000000 - lastRefill ?L) div refillInterval ?L) * refillInterval ?L"
     "12000000 - lastRefill r' = (12000000 - lastRefill ?L) mod refillInterval ?L"
    by (elim exE conjE)
  then have c3: "\<exists>r'. refill ?L 12000000 = Some r'
          \<and> tokens r' = 1 \<and> lastRefill r' = 10000000 \<and> 12000000 - lastRefill r' = 2000000"
    by simp
  note c6 = rate_limiter_lazy_refill [of ?L 2000 "[(2000, TimerFired), (12000000, CtxDone)]" _ ?L "[]",
      THEN conjunct2, THEN conjunct2, THEN conjunct1, THEN mp, OF conjI, OF r2 t0]
  have c7: "tokens (snd (the (Wait ?L [(2000, TimerFired), (12000000, CtxDone)]))) = 0"
    unfolding w3 by simp
  show ?thesis
    by (intro conjI) (fact h [THEN conjunct1] h [THEN conjunct2] c3 w1 r2 c6 c7)+
qed

subsection \<open>Candle bucketer\<close>





























lemma go_int64_of_int [simp]: "go_int64 (of_int n) = n"
  by (simp add: go_int64_def)




















subsection \<open>Composite builder\<close>

























subsection \<open>Heuristic sentiment\<close>

lemma countMatches_bounds:
  "0 \<le> countMatches text keywords \<and> countMatches text keywords \<le> int (length keywords)"
  by (simp add: countMatches_def)

lemma raw_score:
  assumes "0 \<le> b" "0 \<le> r"
  shows "clamp (f_div (f_of_int (b - r)) (f_of_int (b + r + 1))) (Fin (- 1)) (Fin 1)
       = Fin (heuristic_score b r)"
    and "heuristic_score b r = of_int (b - r) / of_int (b + r + 1)"
    and "- 1 < heuristic_score b r \<and> heuristic_score b r < 1"
proof -
  let ?q = "real_of_int (b - r) / real_of_int (b + r + 1)"
  have d: "0 < real_of_int (b + r + 1)" using assms by simp
  have lo: "- 1 < ?q"
  proof -
    have "- real_of_int (b + r + 1) < real_of_int (b - r)" using assms by simp
    then have "- 1 * real_of_int (b + r + 1) < real_of_int (b - r)" by simp
    then show ?thesis using d by (simp only: pos_less_divide_eq)
  qed
  have hi: "?q < 1"
  proof -
    have "real_of_int (b - r) < 1 * real_of_int (b + r + 1)" using assms by simp
    then show ?thesis using d by (simp only: pos_divide_less_eq)
  qed
  show hs: "heuristic_score b r = ?q" using lo hi by (simp add: heuristic_score_def)
  show "- 1 < heuristic_score b r \<and> heuristic_score b r < 1" using lo hi hs by simp
  have "f_div (f_of_int (b - r)) (f_of_int (b + r + 1)) = Fin ?q"
    using d by (simp add: f_of_int_def)
  then show "clamp (f_div (f_of_int (b - r)) (f_of_int (b + r + 1))) (Fin (- 1)) (Fin 1)
       = Fin (heuristic_score b r)"
    using lo hi hs by (simp add: clamp_def f_gt_def)
qed

lemma confidence_formula:
  "clamp (f_add (Fin 0.35) (f_mul (Fin 0.1) (f_of_int (absInt (b - r))))) (Fin 0.25) (Fin 0.70)
     = Fin (heuristic_confidence b r)"
proof -
  have a: "absInt (b - r) = \<bar>b - r\<bar>" by (simp add: absInt_def)
  show ?thesis
    unfolding a by (auto simp: clamp_def f_gt_def f_of_int_def heuristic_confidence_def min_def max_def)
qed

lemma label_formula:
  "(if f_gt (Fin s) (Fin 0.2) then ''bullish''
    else if f_lt (Fin s) (Fin (- 0.2)) then ''bearish'' else ''neutral'') = heuristic_label s"
  by (simp add: heuristic_label_def f_gt_def)

lemma keywords_distinct: "distinct bullish" "distinct bearish" "length bullish = 10" "length bearish = 11"
  by (simp_all add: bullish_def bearish_def)

lemma countMatches_card:
  assumes "distinct keywords"
  shows "countMatches text keywords = int (card {k \<in> set keywords. contains text k})"
proof -
  have "distinct (filter (contains text) keywords)" using assms by simp
  then have "card (set (filter (contains text) keywords)) = length (filter (contains text) keywords)"
    by (rule distinct_card)
  then show ?thesis by (simp add: countMatches_def)
qed

text \<open>
  Claim C6 (heuristic sentiment), as the code has it. The text is the lower-cased,
  trimmed concatenation of the title, one space and the excerpt. An empty text returns
  score 0, confidence 0.25 and label neutral, by the guard at the head of the function.
  For any other text, \<open>bull\<close> and \<open>bear\<close> are the numbers of bullish and bearish
  keywords that occur in the text as substrings, each keyword counted once; the score is
  \<open>(bull - bear) / (bull + bear + 1)\<close>, which the clamp to \<open>[-1, 1]\<close> leaves unchanged; the
  confidence is \<open>0.35 + 0.1 * |bull - bear|\<close> clamped to \<open>[0.25, 0.70]\<close>; the label is
  bullish above 0.2, bearish below -0.2 and neutral otherwise.
\<close>

theorem heuristic_sentiment_formula:
  "(toLower (trimSpace (title @ '' '' @ excerpt)) = [] \<longrightarrow>
      HeuristicSentiment toLower trimSpace title excerpt =
        (Fin 0, Fin 0.25, ''neutral'', ''empty-text''))
   \<and> (toLower (trimSpace (title @ '' '' @ excerpt)) \<noteq> [] \<longrightarrow>
        HeuristicSentiment toLower trimSpace title excerpt =
          (Fin (heuristic_score
                  (countMatches (toLower (trimSpace (title @ '' '' @ excerpt))) bullish)
                  (countMatches (toLower (trimSpace (title @ '' '' @ excerpt))) bearish)),
           Fin (heuristic_confidence
                  (countMatches (toLower (trimSpace (title @ '' '' @ excerpt))) bullish)
                  (countMatches (toLower (trimSpace (title @ '' '' @ excerpt))) bearish)),
           heuristic_label (heuristic_score
                  (countMatches (toLower (trimSpace (title @ '' '' @ excerpt))) bullish)
                  (countMatches (toLower (trimSpace (title @ '' '' @ excerpt))) bearish)),
           ''heuristic keywords bull=''
             @ format_int (countMatches (toLower (trimSpace (title @ '' '' @ excerpt))) bullish)
             @ '' bear=''
             @ format_int (countMatches (toLower (trimSpace (title @ '' '' @ excerpt))) bearish)))
   \<and> heuristic_score (countMatches t bullish) (countMatches t bearish) =
        of_int (countMatches t bullish - countMatches t bearish)
          / of_int (countMatches t bullish + countMatches t bearish + 1)
   \<and> countMatches t bullish = int (card {k \<in> set bullish. contains t k})
   \<and> countMatches t bearish = int (card {k \<in> set bearish. contains t k})
   \<and> countMatches t bullish \<le> 10 \<and> countMatches t bearish \<le> 11"
proof (intro conjI impI)
  assume "toLower (trimSpace (title @ '' '' @ excerpt)) = []"
  then show "HeuristicSentiment toLower trimSpace title excerpt =
        (Fin 0, Fin 0.25, ''neutral'', ''empty-text'')"
    by (simp add: HeuristicSentiment_def)
next
  let ?t = "toLower (trimSpace (title @ '' '' @ excerpt))"
  assume ne: "?t \<noteq> []"
  have b: "0 \<le> countMatches ?t bullish" and r: "0 \<le> countMatches ?t bearish"
    using countMatches_bounds by blast+
  show "HeuristicSentiment toLower trimSpace title excerpt =
          (Fin (heuristic_score (countMatches ?t bullish) (countMatches ?t bearish)),
           Fin (heuristic_confidence (countMatches ?t bullish) (countMatches ?t bearish)),
           heuristic_label (heuristic_score (countMatches ?t bullish) (countMatches ?t bearish)),
           ''heuristic keywords bull='' @ format_int (countMatches ?t bullish)
             @ '' bear='' @ format_int (countMatches ?t bearish))"
    unfolding HeuristicSentiment_def Let_def raw_score(1) [OF b r] confidence_formula label_formula
    using ne by (simp only: if_False)
next
  show "heuristic_score (countMatches t bullish) (countMatches t bearish) =
        of_int (countMatches t bullish - countMatches t bearish)
          / of_int (countMatches t bullish + countMatches t bearish + 1)"
    using countMatches_bounds by (intro raw_score(2)) blast+
next
  show "countMatches t bullish = int (card {k \<in> set bullish. contains t k})"
    by (rule countMatches_card) (rule keywords_distinct)
  show "countMatches t bearish = int (card {k \<in> set bearish. contains t k})"
    by (rule countMatches_card) (rule keywords_distinct)
  show "countMatches t bullish \<le> 10"
    using countMatches_bounds [of t bullish] by (simp add: keywords_distinct)
  show "countMatches t bearish \<le> 11"
    using countMatches_bounds [of t bearish] by (simp add: keywords_distinct)
qed

theorem heuristic_sentiment_counterexample:
  "ascii_lower (ascii_trim_space ([] @ '' '' @ [])) = []
   \<and> countMatches [] bullish = 0 \<and> countMatches [] bearish = 0
   \<and> HeuristicSentiment ascii_lower ascii_trim_space [] [] =
        (Fin 0, Fin 0.25, ''neutral'', ''empty-text'')
   \<and> heuristic_confidence (countMatches [] bullish) (countMatches [] bearish) = 0.35
   \<and> fst (snd (HeuristicSentiment ascii_lower ascii_trim_space [] [])) \<noteq>
        Fin (heuristic_confidence (countMatches [] bullish) (countMatches [] bearish))"
proof -
  have t: "ascii_lower (ascii_trim_space ([] @ '' '' @ [])) = []"
    by (simp add: ascii_lower_def ascii_trim_space_def ascii_space_def)
  have c: "countMatches [] bullish = 0" "countMatches [] bearish = 0"
    by (simp_all add: countMatches_def bullish_def bearish_def)
  have h: "HeuristicSentiment ascii_lower ascii_trim_space [] [] =
        (Fin 0, Fin 0.25, ''neutral'', ''empty-text'')"
    unfolding HeuristicSentiment_def Let_def t by simp
  have f: "heuristic_confidence 0 0 = 0.35" by (simp add: heuristic_confidence_def)
  show ?thesis unfolding h c f using t by simp
qed

lemma sample_text:
  "ascii_lower (ascii_trim_space (''Bitcoin breakout'' @ '' '' @ ''bull trend''))
     = ''bitcoin breakout bull trend''"
  by code_simp

lemma sample_counts:
  "countMatches ''bitcoin breakout bull trend'' bullish = 2"
  "countMatches ''bitcoin breakout bull trend'' bearish = 0"
  by (simp_all add: countMatches_def bullish_def bearish_def)

theorem heuristic_sentiment_formula_witness:
  "ascii_lower (ascii_trim_space (''Bitcoin breakout'' @ '' '' @ ''bull trend'')) \<noteq> []
   \<and> HeuristicSentiment ascii_lower ascii_trim_space ''Bitcoin breakout'' ''bull trend'' =
        (Fin (2 / 3), Fin 0.55, ''bullish'', ''heuristic keywords bull=2 bear=0'')
   \<and> ascii_lower (ascii_trim_space (''  '' @ '' '' @ [])) = []
   \<and> HeuristicSentiment ascii_lower ascii_trim_space ''  '' [] =
        (Fin 0, Fin 0.25, ''neutral'', ''empty-text'')"
proof -
  have n: "ascii_lower (ascii_trim_space (''Bitcoin breakout'' @ '' '' @ ''bull trend'')) \<noteq> []"
    unfolding sample_text by simp
  have e: "ascii_lower (ascii_trim_space (''  '' @ '' '' @ [])) = []"
    by (simp add: ascii_lower_def ascii_trim_space_def ascii_space_def)
  have v: "heuristic_score 2 0 = 2 / 3" "heuristic_confidence 2 0 = 0.55"
      "heuristic_label (2 / 3) = ''bullish''"
    by (simp_all add: heuristic_score_def heuristic_confidence_def heuristic_label_def)
  have fi: "format_int 2 = ''2''" "format_int 0 = ''0''"
    by code_simp+
  have h: "HeuristicSentiment ascii_lower ascii_trim_space ''Bitcoin breakout'' ''bull trend'' =
        (Fin (2 / 3), Fin 0.55, ''bullish'', ''heuristic keywords bull=2 bear=0'')"
    using heuristic_sentiment_formula [of ascii_lower ascii_trim_space "''Bitcoin breakout''"
        "''bull trend''", THEN conjunct2, THEN conjunct1, THEN mp, OF n]
    unfolding sample_text sample_counts v fi by simp
  note z = heuristic_sentiment_formula [of ascii_lower ascii_trim_space "''  ''" "[]",
      THEN conjunct1, THEN mp, OF e]
  show ?thesis by (intro conjI) (fact n h e z)+
qed

subsection \<open>Technical indicators\<close>

lemma length_ema_loop [simp]: "length (ema_loop alpha prev vs) = length vs"
  by (induction vs arbitrary: prev) (simp_all add: Let_def)

lemma length_EMASeries [simp]: "length (EMASeries vals period) = length vals"
  by (cases vals) (simp_all add: EMASeries_def)

lemma EMASeries_seed: "vals \<noteq> [] \<Longrightarrow> EMASeries vals period ! 0 = vals ! 0"
  by (cases vals) (simp_all add: EMASeries_def)

lemma length_MACDSeries:
  "length (fst (MACDSeries vals fast slow signal)) = length vals"
  "length (snd (MACDSeries vals fast slow signal)) = length vals"
  by (simp_all add: MACDSeries_def Let_def)

lemma MACDSeries_line:
  "i < length vals \<Longrightarrow>
   fst (MACDSeries vals fast slow signal) ! i =
     f_sub (EMASeries vals fast ! i) (EMASeries vals slow ! i)"
  by (cases "vals = []") (simp_all add: MACDSeries_def Let_def)

lemma MACDSeries_signal:
  "snd (MACDSeries vals fast slow signal) = EMASeries (fst (MACDSeries vals fast slow signal)) signal"
  by (cases "vals = []") (simp_all add: MACDSeries_def Let_def EMASeries_def)

lemma bollinger_loop_length:
  "bollinger_loop vals p sd idx (m, u, l) = (m', u', l') \<Longrightarrow>
   length m' = length m \<and> length u' = length u \<and> length l' = length l"
proof (induction idx arbitrary: m u l)
  case Nil
  then show ?case by simp
next
  case (Cons i idx)
  obtain mean std where ms: "MeanStd (take p (drop (Suc i - p) vals)) = (mean, std)"
    by (cases "MeanStd (take p (drop (Suc i - p) vals))")
  from Cons.prems have "bollinger_loop vals p sd idx
      (m[i := mean], u[i := f_add mean (f_mul sd std)], l[i := f_sub mean (f_mul sd std)]) = (m', u', l')"
    by (simp add: Let_def ms)
  from Cons.IH [OF this] show ?case by simp
qed

lemma bollinger_loop_other:
  "bollinger_loop vals p sd idx (m, u, l) = (m', u', l') \<Longrightarrow> i \<notin> set idx \<Longrightarrow>
   m' ! i = m ! i \<and> u' ! i = u ! i \<and> l' ! i = l ! i"
proof (induction idx arbitrary: m u l)
  case Nil
  then show ?case by simp
next
  case (Cons j idx)
  obtain mean std where ms: "MeanStd (take p (drop (Suc j - p) vals)) = (mean, std)"
    by (cases "MeanStd (take p (drop (Suc j - p) vals))")
  from Cons.prems(1) have "bollinger_loop vals p sd idx
      (m[j := mean], u[j := f_add mean (f_mul sd std)], l[j := f_sub mean (f_mul sd std)]) = (m', u', l')"
    by (simp add: Let_def ms)
  from Cons.IH [OF this] Cons.prems(2) show ?case by simp
qed

lemma bollinger_loop_at:
  assumes "bollinger_loop vals p sd idx (m, u, l) = (m', u', l')" "i \<in> set idx" "distinct idx"
    "i < length m" "i < length u" "i < length l"
  shows "m' ! i = fst (MeanStd (take p (drop (Suc i - p) vals)))
     \<and> u' ! i = f_add (fst (MeanStd (take p (drop (Suc i - p) vals))))
                  (f_mul sd (snd (MeanStd (take p (drop (Suc i - p) vals)))))
     \<and> l' ! i = f_sub (fst (MeanStd (take p (drop (Suc i - p) vals))))
                  (f_mul sd (snd (MeanStd (take p (drop (Suc i - p) vals)))))"
  using assms
proof (induction idx arbitrary: m u l)
  case Nil
  then show ?case by simp
next
  case (Cons j idx)
  obtain mean std where ms: "MeanStd (take p (drop (Suc j - p) vals)) = (mean, std)"
    by (cases "MeanStd (take p (drop (Suc j - p) vals))")
  let ?m = "m[j := mean]" and ?u = "u[j := f_add mean (f_mul sd std)]"
    and ?l = "l[j := f_sub mean (f_mul sd std)]"
  from Cons.prems(1) have step: "bollinger_loop vals p sd idx (?m, ?u, ?l) = (m', u', l')"
    by (simp add: Let_def ms)
  show ?case
  proof (cases "i = j")
    case True
    then have "i \<notin> set idx" using Cons.prems(3) by simp
    from bollinger_loop_other [OF step this] True ms Cons.prems(4,5,6)
    show ?thesis by simp
  next
    case False
    then have "i \<in> set idx" using Cons.prems(2) by simp
    moreover have "distinct idx" using Cons.prems(3) by simp
    ultimately show ?thesis
      using Cons.IH [OF step] Cons.prems(4,5,6) by simp
  qed
qed

lemma Bollinger_props:
  assumes "BollingerSeries vals period sd = (m, u, l)"
  shows "length m = length vals \<and> length u = length vals \<and> length l = length vals"
    and "i < length vals \<Longrightarrow> period \<le> 0 \<or> int i < period - 1 \<Longrightarrow>
           m ! i = NaN \<and> u ! i = NaN \<and> l ! i = NaN"
    and "i < length vals \<Longrightarrow> 0 < period \<Longrightarrow> period - 1 \<le> int i \<Longrightarrow>
           m ! i = fst (MeanStd (take (nat period) (drop (Suc i - nat period) vals)))
         \<and> u ! i = f_add (fst (MeanStd (take (nat period) (drop (Suc i - nat period) vals))))
                  (f_mul sd (snd (MeanStd (take (nat period) (drop (Suc i - nat period) vals)))))
         \<and> l ! i = f_sub (fst (MeanStd (take (nat period) (drop (Suc i - nat period) vals))))
                  (f_mul sd (snd (MeanStd (take (nat period) (drop (Suc i - nat period) vals)))))"
proof -
  let ?n = "replicate (length vals) NaN"
  show len: "length m = length vals \<and> length u = length vals \<and> length l = length vals"
  proof (cases "vals = [] \<or> period \<le> 0")
    case True
    with assms show ?thesis by (auto simp: BollingerSeries_def Let_def split: if_splits)
  next
    case False
    with assms have "bollinger_loop vals (nat period) sd [nat period - 1..<length vals] (?n, ?n, ?n)
        = (m, u, l)" by (simp add: BollingerSeries_def Let_def)
    from bollinger_loop_length [OF this] show ?thesis by simp
  qed
  {
    assume i: "i < length vals" and w: "period \<le> 0 \<or> int i < period - 1"
    show "m ! i = NaN \<and> u ! i = NaN \<and> l ! i = NaN"
    proof (cases "period \<le> 0")
      case True
      with assms i show ?thesis by (auto simp: BollingerSeries_def Let_def split: if_splits)
    next
      case False
      with i have ne: "vals \<noteq> []" by auto
      with assms False
      have run: "bollinger_loop vals (nat period) sd [nat period - 1..<length vals] (?n, ?n, ?n)
          = (m, u, l)" by (simp add: BollingerSeries_def Let_def)
      have "i \<notin> set [nat period - 1..<length vals]" using w False by auto
      from bollinger_loop_other [OF run this] i show ?thesis by simp
    qed
  }
  {
    assume i: "i < length vals" and p: "0 < period" and w: "period - 1 \<le> int i"
    have ne: "vals \<noteq> []" using i by auto
    with assms p
    have run: "bollinger_loop vals (nat period) sd [nat period - 1..<length vals] (?n, ?n, ?n)
        = (m, u, l)" by (simp add: BollingerSeries_def Let_def)
    have "i \<in> set [nat period - 1..<length vals]" using w p i by auto
    from bollinger_loop_at [OF run this] i
    show "m ! i = fst (MeanStd (take (nat period) (drop (Suc i - nat period) vals)))
         \<and> u ! i = f_add (fst (MeanStd (take (nat period) (drop (Suc i - nat period) vals))))
                  (f_mul sd (snd (MeanStd (take (nat period) (drop (Suc i - nat period) vals)))))
         \<and> l ! i = f_sub (fst (MeanStd (take (nat period) (drop (Suc i - nat period) vals))))
                  (f_mul sd (snd (MeanStd (take (nat period) (drop (Suc i - nat period) vals)))))"
      by simp
  }
qed

lemma rsi_loop_length [simp]:
  "length (rsi_loop closes p idx avgs s) = length s"
  by (induction idx arbitrary: avgs s) (simp_all add: Let_def)

lemma rsi_loop_other:
  "i \<notin> set idx \<Longrightarrow> rsi_loop closes p idx avgs s ! i = s ! i"
  by (induction idx arbitrary: avgs s) (simp_all add: Let_def)

lemma rsi_loop_at:
  assumes "p + k < n" "n \<le> length s" "j < k"
  shows "rsi_loop closes p [Suc (p + j)..<n] (wilder_avgs closes p j) s ! (p + k) =
     rsiFromAvg (fst (wilder_avgs closes p k)) (snd (wilder_avgs closes p k))"
  using assms
proof (induction "k - j" arbitrary: j s)
  case 0
  then show ?case by simp
next
  case (Suc d)
  have lt: "Suc (p + j) < n" using Suc.prems(1,3) by simp
  then have upt: "[Suc (p + j)..<n] = Suc (p + j) # [Suc (p + Suc j)..<n]"
    by (simp add: upt_conv_Cons)
  let ?a = "wilder_avgs closes p (Suc j)"
  let ?s = "s[Suc (p + j) := rsiFromAvg (fst ?a) (snd ?a)]"
  have step: "rsi_loop closes p [Suc (p + j)..<n] (wilder_avgs closes p j) s =
      rsi_loop closes p [Suc (p + Suc j)..<n] ?a ?s"
    unfolding upt by (simp add: Let_def)
  show ?case
  proof (cases "k = Suc j")
    case True
    have "p + k \<notin> set [Suc (p + Suc j)..<n]" using True by simp
    then have "rsi_loop closes p [Suc (p + Suc j)..<n] ?a ?s ! (p + k) = ?s ! (p + k)"
      by (rule rsi_loop_other)
    also have "\<dots> = rsiFromAvg (fst ?a) (snd ?a)"
      using True lt Suc.prems(2) by simp
    finally show ?thesis unfolding step using True by simp
  next
    case False
    then have jk: "Suc j < k" using Suc.prems(3) by simp
    have d: "d = k - Suc j" using Suc.hyps(2) by simp
    have "rsi_loop closes p [Suc (p + Suc j)..<n] ?a ?s ! (p + k) =
        rsiFromAvg (fst (wilder_avgs closes p k)) (snd (wilder_avgs closes p k))"
      by (rule Suc.hyps(1) [OF d]) (use Suc.prems jk in simp_all)
    then show ?thesis unfolding step .
  qed
qed

lemma RSI_short: "int (length closes) \<le> period \<Longrightarrow> RSISeries closes period = Some []"
  by (simp add: RSISeries_def)

lemma rsiFromAvg_zero_loss: "f_eq avgLoss (Fin 0) \<Longrightarrow> rsiFromAvg avgGain avgLoss = Fin 100"
  by (simp add: rsiFromAvg_def)

lemma RSI_run:
  assumes "0 \<le> period" "period < int (length closes)"
  shows "RSISeries closes period =
     Some (rsi_loop closes (nat period) [Suc (nat period)..<length closes]
             (wilder_avgs closes (nat period) 0)
             ((replicate (length closes) NaN)
                [nat period := rsiFromAvg (fst (wilder_avgs closes (nat period) 0))
                                  (snd (wilder_avgs closes (nat period) 0))]))"
  using assms by (simp add: RSISeries_def Let_def case_prod_beta)

lemma RSI_props:
  assumes "0 \<le> period" "period < int (length closes)"
  shows "\<exists>s. RSISeries closes period = Some s \<and> length s = length closes
     \<and> (\<forall>i < nat period. s ! i = NaN)
     \<and> (\<forall>k. nat period + k < length closes \<longrightarrow>
            s ! (nat period + k) =
              rsiFromAvg (fst (wilder_avgs closes (nat period) k))
                         (snd (wilder_avgs closes (nat period) k)))"
proof -
  let ?p = "nat period" and ?n = "length closes"
  let ?init = "(replicate ?n NaN) [?p := rsiFromAvg (fst (wilder_avgs closes ?p 0))
                                  (snd (wilder_avgs closes ?p 0))]"
  let ?s = "rsi_loop closes ?p [Suc ?p..<?n] (wilder_avgs closes ?p 0) ?init"
  have pn: "?p < ?n" using assms by simp
  have run: "RSISeries closes period = Some ?s" by (rule RSI_run [OF assms])
  have len: "length ?s = ?n" by simp
  have warm: "?s ! i = NaN" if "i < ?p" for i
  proof -
    have "i \<notin> set [Suc ?p..<?n]" using that by simp
    then have "?s ! i = ?init ! i" by (rule rsi_loop_other)
    also have "\<dots> = NaN" using that pn by simp
    finally show ?thesis .
  qed
  have at: "?s ! (?p + k) = rsiFromAvg (fst (wilder_avgs closes ?p k)) (snd (wilder_avgs closes ?p k))"
    if "?p + k < ?n" for k
  proof (cases k)
    case 0
    have "?p \<notin> set [Suc ?p..<?n]" by simp
    then have "?s ! ?p = ?init ! ?p" by (rule rsi_loop_other)
    also have "\<dots> = rsiFromAvg (fst (wilder_avgs closes ?p 0)) (snd (wilder_avgs closes ?p 0))"
      using pn by simp
    finally show ?thesis using 0 by simp
  next
    case (Suc k')
    have "rsi_loop closes ?p [Suc (?p + 0)..<?n] (wilder_avgs closes ?p 0) ?init ! (?p + k) =
        rsiFromAvg (fst (wilder_avgs closes ?p k)) (snd (wilder_avgs closes ?p k))"
      by (rule rsi_loop_at) (use that Suc in simp_all)
    then show ?thesis by simp
  qed
  show ?thesis using run len warm at by blast
qed

text \<open>
  Claim C7 (indicator series alignment), as the code has it. EMA, both MACD series and
  the three Bollinger bands have the length of the input. EMA and MACD are seeded with
  the first value and have no NaN position of their own; the Bollinger bands are NaN
  before index \<open>period - 1\<close> (everywhere when \<open>period \<le> 0\<close>). RSI returns the empty
  series when the input is not longer than the period; otherwise, for a period that is
  not negative, its series has the length of the input, is NaN before index \<open>period\<close>,
  holds at index \<open>period\<close> the value of the simple averages of the first \<open>period\<close>
  changes and at every later index the value of the Wilder-smoothed averages; the value
  of an average loss equal to 0 is 100.
\<close>

theorem indicator_alignment:
  "length (EMASeries vals period) = length vals
   \<and> (vals \<noteq> [] \<longrightarrow> EMASeries vals period ! 0 = vals ! 0)
   \<and> length (fst (MACDSeries vals fast slow signal)) = length vals
   \<and> length (snd (MACDSeries vals fast slow signal)) = length vals
   \<and> length (fst (BollingerSeries vals period sd)) = length vals
   \<and> length (fst (snd (BollingerSeries vals period sd))) = length vals
   \<and> length (snd (snd (BollingerSeries vals period sd))) = length vals
   \<and> (i < length vals \<and> (period \<le> 0 \<or> int i < period - 1) \<longrightarrow>
        fst (BollingerSeries vals period sd) ! i = NaN
        \<and> fst (snd (BollingerSeries vals period sd)) ! i = NaN
        \<and> snd (snd (BollingerSeries vals period sd)) ! i = NaN)
   \<and> (int (length closes) \<le> rp \<longrightarrow> RSISeries closes rp = Some [])
   \<and> (0 \<le> rp \<and> rp < int (length closes) \<longrightarrow>
        (\<exists>s. RSISeries closes rp = Some s \<and> length s = length closes
           \<and> (\<forall>i < nat rp. s ! i = NaN)
           \<and> (\<forall>k. nat rp + k < length closes \<longrightarrow>
                  s ! (nat rp + k) =
                    rsiFromAvg (fst (wilder_avgs closes (nat rp) k))
                               (snd (wilder_avgs closes (nat rp) k)))))
   \<and> (f_eq avgLoss (Fin 0) \<longrightarrow> rsiFromAvg avgGain avgLoss = Fin 100)"
proof -
  obtain m u l where b: "BollingerSeries vals period sd = (m, u, l)"
    by (cases "BollingerSeries vals period sd") auto
  note bp = Bollinger_props [OF b]
  have b1: "length (fst (BollingerSeries vals period sd)) = length vals
   \<and> length (fst (snd (BollingerSeries vals period sd))) = length vals
   \<and> length (snd (snd (BollingerSeries vals period sd))) = length vals"
    using bp(1) by (simp add: b)
  have b2: "i < length vals \<and> (period \<le> 0 \<or> int i < period - 1) \<longrightarrow>
        fst (BollingerSeries vals period sd) ! i = NaN
        \<and> fst (snd (BollingerSeries vals period sd)) ! i = NaN
        \<and> snd (snd (BollingerSeries vals period sd)) ! i = NaN"
    using bp(2) [of i] by (simp add: b)
  have r: "0 \<le> rp \<and> rp < int (length closes) \<longrightarrow>
        (\<exists>s. RSISeries closes rp = Some s \<and> length s = length closes
           \<and> (\<forall>i < nat rp. s ! i = NaN)
           \<and> (\<forall>k. nat rp + k < length closes \<longrightarrow>
                  s ! (nat rp + k) =
                    rsiFromAvg (fst (wilder_avgs closes (nat rp) k))
                               (snd (wilder_avgs closes (nat rp) k))))"
    using RSI_props [of rp closes] by blast
  have e1: "length (EMASeries vals period) = length vals" by simp
  have e2: "vals \<noteq> [] \<longrightarrow> EMASeries vals period ! 0 = vals ! 0"
    using EMASeries_seed by blast
  have m1: "length (fst (MACDSeries vals fast slow signal)) = length vals"
    and m2: "length (snd (MACDSeries vals fast slow signal)) = length vals"
    by (rule length_MACDSeries)+
  have r0: "int (length closes) \<le> rp \<longrightarrow> RSISeries closes rp = Some []"
    using RSI_short by blast
  have z: "f_eq avgLoss (Fin 0) \<longrightarrow> rsiFromAvg avgGain avgLoss = Fin 100"
    using rsiFromAvg_zero_loss by blast
  show ?thesis
    by (intro conjI) (fact e1 e2 m1 m2 b1 [THEN conjunct1] b1 [THEN conjunct2, THEN conjunct1]
        b1 [THEN conjunct2, THEN conjunct2] b2 r0 r z)+
qed

theorem indicator_alignment_counterexample:
  "RSISeries [Fin 1, Fin 2, Fin 3] 14 = Some []
   \<and> length (the (RSISeries [Fin 1, Fin 2, Fin 3] 14)) \<noteq> length [Fin 1, Fin 2, Fin 3]"
  by (simp add: RSISeries_def)

lemma rsi_example:
  "RSISeries [Fin 1, Fin 2, Fin 4, Fin 3] 2 = Some [NaN, NaN, Fin 100, Fin 60]"
proof -
  have u: "[1..<Suc 2] = [1, 2]" "[Suc 2..<4] = [3]" "[Suc (nat 2)..<4] = [3]"
    by (simp_all add: upt_rec)
  have s: "rsi_sums [Fin 1, Fin 2, Fin 4, Fin 3] 2 = (Fin 3, Fin 0)"
    unfolding rsi_sums_def u by (simp add: f_sub_def f_gt_def)
  have w0: "rsiFromAvg (Fin (3 / 2)) (Fin 0) = Fin 100"
    by (simp add: rsiFromAvg_def)
  have sm: "rsi_smooth [Fin 1, Fin 2, Fin 4, Fin 3] 2 3 (Fin (3 / 2), Fin 0) = (Fin (3 / 4), Fin (1 / 2))"
    by (simp add: rsi_smooth_def Let_def f_sub_def f_max_def f_gt_def f_of_int_def)
  have w1: "rsiFromAvg (Fin (3 / 4)) (Fin (1 / 2)) = Fin 60"
    by (simp add: rsiFromAvg_def f_sub_def)
  have d: "f_div (Fin 3) (f_of_int 2) = Fin (3 / 2)" "f_div (Fin 0) (f_of_int 2) = Fin 0"
    by (simp_all add: f_of_int_def)
  have n2: "nat 2 = 2" by simp
  have l: "length [Fin 1, Fin 2, Fin 4, Fin 3] = 4" by simp
  have rep: "replicate 4 NaN = [NaN, NaN, NaN, NaN]" by (simp add: numeral_eq_Suc)
  show ?thesis
    unfolding RSISeries_def Let_def l n2 s prod.case u d w0 rep
    by (simp add: sm w1)
qed


theorem indicator_alignment_witness:
  "[Fin 1, Fin 2, Fin 4, Fin 3] \<noteq> []
   \<and> EMASeries [Fin 1, Fin 2, Fin 4, Fin 3] 3 ! 0 = [Fin 1, Fin 2, Fin 4, Fin 3] ! 0
   \<and> (0 :: nat) < length [Fin 1, Fin 2, Fin 4, Fin 3]
   \<and> int 0 < 3 - 1
   \<and> fst (BollingerSeries [Fin 1, Fin 2, Fin 4, Fin 3] 3 (Fin 2)) ! 0 = NaN
   \<and> int (length [Fin 1, Fin 2, Fin 3]) \<le> 14
   \<and> RSISeries [Fin 1, Fin 2, Fin 3] 14 = Some []
   \<and> (0 :: int) \<le> 2 \<and> 2 < int (length [Fin 1, Fin 2, Fin 4, Fin 3])
   \<and> RSISeries [Fin 1, Fin 2, Fin 4, Fin 3] 2 = Some [NaN, NaN, Fin 100, Fin 60]
   \<and> length (the (RSISeries [Fin 1, Fin 2, Fin 4, Fin 3] 2)) = length [Fin 1, Fin 2, Fin 4, Fin 3]
   \<and> the (RSISeries [Fin 1, Fin 2, Fin 4, Fin 3] 2) ! 1 = NaN
   \<and> f_eq (Fin 0) (Fin 0)
   \<and> rsiFromAvg (Fin 1.5) (Fin 0) = Fin 100"
proof -
  let ?v = "[Fin 1, Fin 2, Fin 4, Fin 3]"
  have h1: "?v \<noteq> []" by simp
  have h2: "(0 :: nat) < length ?v \<and> ((3 :: int) \<le> 0 \<or> int 0 < 3 - 1)" by simp
  have h3: "int (length [Fin 1, Fin 2, Fin 3]) \<le> 14" by simp
  have h4: "(0 :: int) \<le> 2 \<and> 2 < int (length ?v)" by simp
  have h5: "f_eq (Fin 0) (Fin 0)" by simp
  have c1: "EMASeries ?v 3 ! 0 = ?v ! 0"
    by (rule indicator_alignment [of ?v 3, THEN conjunct2, THEN conjunct1, THEN mp, OF h1])
  have c2: "fst (BollingerSeries ?v 3 (Fin 2)) ! 0 = NaN"
    by (rule indicator_alignment [of ?v 3 _ _ _ "Fin 2" 0, THEN conjunct2, THEN conjunct2, THEN conjunct2, THEN conjunct2, THEN conjunct2, THEN conjunct2, THEN conjunct2, THEN conjunct1, THEN mp, OF h2, THEN conjunct1])
  have c3: "RSISeries [Fin 1, Fin 2, Fin 3] 14 = Some []"
    by (rule indicator_alignment [of _ _ _ _ _ _ _ "[Fin 1, Fin 2, Fin 3]" 14, THEN conjunct2, THEN conjunct2, THEN conjunct2, THEN conjunct2, THEN conjunct2, THEN conjunct2, THEN conjunct2, THEN conjunct2, THEN conjunct1, THEN mp, OF h3])
  have c5: "rsiFromAvg (Fin 1.5) (Fin 0) = Fin 100"
    by (rule indicator_alignment [of _ _ _ _ _ _ _ _ _ "Fin 0" "Fin 1.5", THEN conjunct2, THEN conjunct2, THEN conjunct2, THEN conjunct2, THEN conjunct2, THEN conjunct2, THEN conjunct2, THEN conjunct2, THEN conjunct2, THEN conjunct2, THEN mp, OF h5])
  from indicator_alignment [of _ _ _ _ _ _ _ ?v 2, THEN conjunct2, THEN conjunct2, THEN conjunct2, THEN conjunct2, THEN conjunct2, THEN conjunct2, THEN conjunct2, THEN conjunct2, THEN conjunct2, THEN conjunct1, THEN mp, OF h4]
  obtain s where s: "RSISeries ?v 2 = Some s" "length s = length ?v"
      "\<forall>i < nat 2. s ! i = NaN"
    by (elim exE conjE)
  have c6: "length (the (RSISeries ?v 2)) = length ?v" using s by simp
  have c7: "the (RSISeries ?v 2) ! 1 = NaN" using s by simp
  show ?thesis
    by (intro conjI) (fact h1 c1 h2 [THEN conjunct1] c2 h3 c3 h4 [THEN conjunct1]
        h4 [THEN conjunct2] rsi_example c6 c7 h5 c5 | simp)+
qed

subsection \<open>Logistic regression: edge cases of the prediction\<close>









end
